theory Spec2Isabelle
  imports Complex_Main
begin

section \<open>GVM agent: error codes and C strings\<close>

text \<open>
  The error codes of \<^verbatim>\<open>agent.h\<close>. The C functions return them as \<^verbatim>\<open>int\<close>;
  \<open>err_code\<close> gives the number behind each name.
\<close>

datatype err =
    ERR_SUCCESS
  | ERR_CONFIG_MISSING
  | ERR_CONFIG_INVALID
  | ERR_NETWORK_UNREACHABLE
  | ERR_AUTH_FAILED
  | ERR_SERVER_ERROR
  | ERR_INVALID_RESPONSE
  | ERR_AGENT_UNAUTHORIZED
  | ERR_JOB_EXECUTION_FAILED

fun err_code :: "err \<Rightarrow> int" where
  "err_code ERR_SUCCESS = 0"
| "err_code ERR_CONFIG_MISSING = 1001"
| "err_code ERR_CONFIG_INVALID = 1002"
| "err_code ERR_NETWORK_UNREACHABLE = 2001"
| "err_code ERR_AUTH_FAILED = 2002"
| "err_code ERR_SERVER_ERROR = 2003"
| "err_code ERR_INVALID_RESPONSE = 2004"
| "err_code ERR_AGENT_UNAUTHORIZED = 3001"
| "err_code ERR_JOB_EXECUTION_FAILED = 3002"

text \<open>
  A C string is a \<open>string\<close> without the terminating NUL; a \<^verbatim>\<open>char *\<close> that may be
  \<^verbatim>\<open>NULL\<close> is a \<open>string option\<close>. Allocation (\<^verbatim>\<open>malloc\<close>, \<^verbatim>\<open>calloc\<close>, \<^verbatim>\<open>utils_strdup\<close>)
  is taken to succeed; \<open>config_load\<close> and \<open>create_scan_result\<close>, whose results the
  properties below are about, take the outcome of their allocation as a parameter.
\<close>

definition c_str :: "string \<Rightarrow> string" where
  \<comment> \<open>what the C string functions see of a buffer: the bytes before the first NUL\<close>
  "c_str s = takeWhile (\<lambda>c. c \<noteq> CHR 0x00) s"

fun c_strchr :: "string \<Rightarrow> char \<Rightarrow> (string \<times> string) option" where
  \<comment> \<open>\<^verbatim>\<open>strchr\<close>: the bytes before the first occurrence and the bytes after it\<close>
  "c_strchr [] c = None"
| "c_strchr (x # xs) c =
     (if x = c then Some ([], xs)
      else (case c_strchr xs c of None \<Rightarrow> None | Some (b, a) \<Rightarrow> Some (x # b, a)))"

definition starts_with :: "string \<Rightarrow> string \<Rightarrow> bool" where
  \<comment> \<open>\<^verbatim>\<open>strncmp(s, p, strlen(p)) == 0\<close>\<close>
  "starts_with s p = (take (length p) s = p)"

fun c_strstr :: "string \<Rightarrow> string \<Rightarrow> string option" where
  \<comment> \<open>\<^verbatim>\<open>strstr\<close>: the suffix that begins at the first occurrence of the needle\<close>
  "c_strstr [] n = (if n = [] then Some [] else None)"
| "c_strstr (x # xs) n = (if starts_with (x # xs) n then Some (x # xs) else c_strstr xs n)"

definition int32 :: "int \<Rightarrow> int" where
  \<comment> \<open>the value a 32-bit two's complement \<^verbatim>\<open>int\<close> holds after wrap-around\<close>
  "int32 x = (x + 2147483648) mod 4294967296 - 2147483648"

definition is_digit :: "char \<Rightarrow> bool" where
  "is_digit c = (48 \<le> (of_char c :: nat) \<and> (of_char c :: nat) \<le> 57)"

definition digit_val :: "char \<Rightarrow> int" where
  "digit_val c = int (of_char c) - 48"

definition is_space :: "char \<Rightarrow> bool" where
  \<comment> \<open>\<^verbatim>\<open>isspace\<close> in the C locale\<close>
  "is_space c = (c = CHR '' '' \<or> c = CHR 0x09 \<or> c = CHR 0x0A \<or> c = CHR 0x0B
                 \<or> c = CHR 0x0C \<or> c = CHR 0x0D)"

definition digits_value :: "string \<Rightarrow> int" where
  "digits_value s = foldl (\<lambda>a c. a * 10 + digit_val c) 0 (takeWhile is_digit s)"

definition strtol_value :: "string \<Rightarrow> int" where
  \<comment> \<open>leading white space, an optional sign, then decimal digits\<close>
  "strtol_value s =
     (case dropWhile is_space s of
        [] \<Rightarrow> 0
      | c # cs \<Rightarrow>
          (if c = CHR ''-'' then - digits_value cs
           else if c = CHR ''+'' then digits_value cs
           else digits_value (c # cs)))"

definition atoi :: "string \<Rightarrow> int" where
  \<comment> \<open>\<^verbatim>\<open>atoi\<close> as the GNU C library computes it on an LP64 system: \<^verbatim>\<open>(int) strtol(s, NULL, 10)\<close>,
      where \<^verbatim>\<open>strtol\<close> saturates at the bounds of \<^verbatim>\<open>long\<close> and the cast keeps the low
      32 bits. ISO C leaves the result undefined when the number does not fit an \<^verbatim>\<open>int\<close>.\<close>
  "atoi s = int32 (max (- 9223372036854775808) (min 9223372036854775807 (strtol_value s)))"

section \<open>The configuration file (\<^verbatim>\<open>config.c\<close>)\<close>

record agent_config =
  agent_id :: "string option"
  hostname :: "string option"
  controller_url :: "string option"
  auth_token :: "string option"
  heartbeat_interval_seconds :: int
  retry_attempts :: int
  retry_delay_seconds :: int
  max_jitter_seconds :: int
  log_level :: "string option"

definition is_blank :: "char \<Rightarrow> bool" where
  "is_blank c = (c = CHR '' '' \<or> c = CHR 0x09)"

definition is_trailing :: "char \<Rightarrow> bool" where
  "is_trailing c = (c = CHR '' '' \<or> c = CHR 0x09 \<or> c = CHR 0x0A \<or> c = CHR 0x0D)"

definition trim_whitespace :: "string \<Rightarrow> string" where
  \<comment> \<open>Leading blanks and tabs are skipped. The backward scan stops at the first remaining
      character (\<^verbatim>\<open>end > str\<close>), so that character is kept whatever it is.\<close>
  "trim_whitespace s =
     (case dropWhile is_blank s of
        [] \<Rightarrow> []
      | c # cs \<Rightarrow> c # rev (dropWhile is_trailing (rev cs)))"

text \<open>
  \<^verbatim>\<open>fgets(line, sizeof(line), file)\<close> with \<^verbatim>\<open>MAX_LINE_LENGTH = 1024\<close> delivers at most
  1023 bytes, ending after a newline if one comes first.
\<close>

fun fgets_chunk :: "nat \<Rightarrow> string \<Rightarrow> string \<times> string" where
  "fgets_chunk n [] = ([], [])"
| "fgets_chunk n (c # cs) =
     (if n = 0 then ([], c # cs)
      else if c = CHR 0x0A then ([c], cs)
      else (case fgets_chunk (n - 1) cs of (l, r) \<Rightarrow> (c # l, r)))"

lemma fgets_chunk_rest: "length (snd (fgets_chunk n s)) \<le> length s"
  by (induction n s rule: fgets_chunk.induct) (auto split: prod.splits)

lemma fgets_chunk_progress: "0 < n \<Longrightarrow> length (snd (fgets_chunk n (c # cs))) \<le> length cs"
  using fgets_chunk_rest [of "n - 1" cs] by (auto split: prod.splits)

function fgets_lines :: "string \<Rightarrow> string list" where
  "fgets_lines [] = []"
| "fgets_lines (c # cs) = fst (fgets_chunk 1023 (c # cs)) # fgets_lines (snd (fgets_chunk 1023 (c # cs)))"
  by pat_completeness auto
termination
proof (relation "measure length")
  show "wf (measure length)" by simp
next
  fix c :: char and cs :: string
  have "length (snd (fgets_chunk 1023 (c # cs))) \<le> length cs"
    by (rule fgets_chunk_progress) simp
  then show "(snd (fgets_chunk 1023 (c # cs)), c # cs) \<in> measure length" by simp
qed

datatype line_item = Skip | Section string | Assign string string

definition unquote :: "string \<Rightarrow> string" where
  \<comment> \<open>"Remove quotes from value": after an opening quote, the text up to the next quote\<close>
  "unquote v = (case v of [] \<Rightarrow> []
                | c # cs \<Rightarrow> if c = CHR 0x22 then takeWhile (\<lambda>x. x \<noteq> CHR 0x22) cs else c # cs)"

definition key_value :: "string \<Rightarrow> line_item" where
  "key_value trimmed =
     (case c_strchr trimmed CHR ''='' of
        None \<Rightarrow> Skip
      | Some (k, v) \<Rightarrow> Assign (trim_whitespace k) (unquote (trim_whitespace v)))"

definition classify_line :: "string \<Rightarrow> line_item" where
  \<comment> \<open>the body of the \<^verbatim>\<open>while (fgets ...)\<close> loop up to the dispatch on the section\<close>
  "classify_line line =
     (case trim_whitespace (c_str line) of
        [] \<Rightarrow> Skip
      | c # cs \<Rightarrow>
          if c = CHR ''#'' \<or> c = CHR '';'' then Skip
          else if c = CHR ''[''
          then (case c_strchr (c # cs) CHR '']'' of
                  Some (b, a) \<Rightarrow> Section (tl b)
                | None \<Rightarrow> key_value (c # cs))
          else key_value (c # cs))"

definition config_set :: "string \<Rightarrow> string \<Rightarrow> string \<Rightarrow> agent_config \<Rightarrow> agent_config" where
  "config_set section key val config =
     (if section = ''agent'' then
        (if key = ''agent_id'' then config\<lparr>agent_id := Some val\<rparr>
         else if key = ''hostname'' then config\<lparr>hostname := Some val\<rparr>
         else config)
      else if section = ''controller'' then
        (if key = ''url'' then config\<lparr>controller_url := Some val\<rparr>
         else if key = ''auth_token'' then config\<lparr>auth_token := Some val\<rparr>
         else config)
      else if section = ''heartbeat'' then
        (if key = ''interval_in_seconds'' then config\<lparr>heartbeat_interval_seconds := atoi val\<rparr>
         else if key = ''miss_until_inactive'' then config
         else config)
      else if section = ''retry'' then
        (if key = ''attempts'' then config\<lparr>retry_attempts := atoi val\<rparr>
         else if key = ''delay_in_seconds'' then config\<lparr>retry_delay_seconds := atoi val\<rparr>
         else if key = ''max_jitter_in_seconds'' then config\<lparr>max_jitter_seconds := atoi val\<rparr>
         else config)
      else if section = ''logging'' then
        (if key = ''level'' then config\<lparr>log_level := Some val\<rparr> else config)
      else config)"

fun config_lines :: "string list \<Rightarrow> string \<Rightarrow> agent_config \<Rightarrow> agent_config" where
  \<comment> \<open>the loop; \<^verbatim>\<open>strncpy(current_section, trimmed + 1, 63)\<close> keeps 63 bytes of the name\<close>
  "config_lines [] current_section config = config"
| "config_lines (line # rest) current_section config =
     (case classify_line line of
        Skip \<Rightarrow> config_lines rest current_section config
      | Section name \<Rightarrow> config_lines rest (take 63 name) config
      | Assign key val \<Rightarrow> config_lines rest current_section (config_set current_section key val config))"

definition config_defaults :: agent_config where
  \<comment> \<open>\<^verbatim>\<open>calloc\<close> zeroes the structure, then "Set defaults per Section 7.2.4"\<close>
  "config_defaults =
     \<lparr>agent_id = None, hostname = None, controller_url = None, auth_token = None,
      heartbeat_interval_seconds = 600, retry_attempts = 5, retry_delay_seconds = 60,
      max_jitter_seconds = 30, log_level = Some ''info''\<rparr>"

definition config_validate :: "agent_config option \<Rightarrow> err" where
  "config_validate config =
     (case config of
        None \<Rightarrow> ERR_CONFIG_INVALID
      | Some c \<Rightarrow>
          if controller_url c = None \<or> controller_url c = Some [] then ERR_CONFIG_INVALID
          else if auth_token c = None \<or> auth_token c = Some [] then ERR_CONFIG_INVALID
          else if heartbeat_interval_seconds c < 60 then ERR_CONFIG_INVALID
          else ERR_SUCCESS)"

definition config_parse :: "string \<Rightarrow> agent_config" where
  "config_parse content = config_lines (fgets_lines content) [] config_defaults"

definition config_load ::
  "(string \<Rightarrow> string option) \<Rightarrow> bool \<Rightarrow> string option \<Rightarrow> bool \<Rightarrow> err \<times> agent_config option" where
  \<comment> \<open>\<open>fopen_r\<close> is the file system (\<open>None\<close>: the file cannot be opened), \<open>calloc_ok\<close> the
      outcome of the allocation, \<open>has_out\<close> whether \<^verbatim>\<open>config_out\<close> is non-NULL. The second
      component is what \<^verbatim>\<open>*config_out\<close> receives; \<open>None\<close> when it is not written.\<close>
  "config_load fopen_r calloc_ok config_path has_out =
     (case config_path of
        None \<Rightarrow> (ERR_CONFIG_MISSING, None)
      | Some path \<Rightarrow>
          if \<not> has_out then (ERR_CONFIG_MISSING, None)
          else (case fopen_r path of
                  None \<Rightarrow> (ERR_CONFIG_MISSING, None)
                | Some content \<Rightarrow>
                    if \<not> calloc_ok then (ERR_CONFIG_INVALID, None)
                    else (let config = config_parse content;
                              validate_result = config_validate (Some config)
                          in if validate_result \<noteq> ERR_SUCCESS then (validate_result, None)
                             else (ERR_SUCCESS, Some config))))"

text \<open>
  The value the file gives to a key of a section: the last assignment to it among the
  lines, read with the section that is current at each line.
\<close>

fun assigned :: "string \<Rightarrow> string \<Rightarrow> string list \<Rightarrow> string \<Rightarrow> string option \<Rightarrow> string option" where
  "assigned sec key [] current_section found = found"
| "assigned sec key (line # rest) current_section found =
     (case classify_line line of
        Skip \<Rightarrow> assigned sec key rest current_section found
      | Section name \<Rightarrow> assigned sec key rest (take 63 name) found
      | Assign k v \<Rightarrow>
          assigned sec key rest current_section
            (if current_section = sec \<and> k = key then Some v else found))"

definition file_value :: "string \<Rightarrow> string \<Rightarrow> string \<Rightarrow> string option" where
  "file_value sec key content = assigned sec key (fgets_lines content) [] None"

text \<open>
  The same value for the file read as text, a line ending at each newline whatever its
  length: what the file declares, independently of the buffer of the loader.
\<close>

fun lines_from :: "string \<Rightarrow> string \<Rightarrow> string list" where
  \<comment> \<open>the lines of a text, each with its newline; the first argument holds, reversed,
      the characters of the line that is being read\<close>
  "lines_from cur [] = (if cur = [] then [] else [rev cur])"
| "lines_from cur (c # cs) =
     (if c = CHR 0x0A then rev (c # cur) # lines_from [] cs else lines_from (c # cur) cs)"

definition text_lines :: "string \<Rightarrow> string list" where
  "text_lines content = lines_from [] content"

definition declared_value :: "string \<Rightarrow> string \<Rightarrow> string \<Rightarrow> string option" where
  \<comment> \<open>the value a file gives to a key of a section when it is read line by line, whatever
      the length of the lines\<close>
  "declared_value sec key content = assigned sec key (text_lines content) [] None"

definition recognized :: "string \<Rightarrow> string \<Rightarrow> bool" where
  \<comment> \<open>the section and key pairs that the dispatch of the loop compares against\<close>
  "recognized section key =
     ((section, key) \<in> set
        [(''agent'', ''agent_id''), (''agent'', ''hostname''),
         (''controller'', ''url''), (''controller'', ''auth_token''),
         (''heartbeat'', ''interval_in_seconds''), (''heartbeat'', ''miss_until_inactive''),
         (''retry'', ''attempts''), (''retry'', ''delay_in_seconds''),
         (''retry'', ''max_jitter_in_seconds''), (''logging'', ''level'')])"

fun section_after :: "string list \<Rightarrow> string \<Rightarrow> string" where
  \<comment> \<open>\<^verbatim>\<open>current_section\<close> after the loop has read the given lines\<close>
  "section_after [] current_section = current_section"
| "section_after (line # rest) current_section =
     (case classify_line line of
        Section name \<Rightarrow> section_after rest (take 63 name)
      | _ \<Rightarrow> section_after rest current_section)"

definition rejects_unknown_keys :: "string list \<Rightarrow> bool" where
  \<comment> \<open>the strict schema as the specification words it: a file (its lines) that holds a
      key outside the recognized set is not loaded\<close>
  "rejects_unknown_keys ls =
     (if (\<exists>i < length ls. \<exists>k v. classify_line (ls ! i) = Assign k v
            \<and> \<not> recognized (section_after (take i ls) []) k)
      then config_validate (Some (config_lines ls [] config_defaults)) \<noteq> ERR_SUCCESS
      else True)"

section \<open>The environment of the agent\<close>

text \<open>
  The agent acts on the network, the clock and the random number generator. The model
  passes a \<open>world\<close> through every function: oracles that answer the next transfer, the
  next \<^verbatim>\<open>time(NULL)\<close> and the next \<^verbatim>\<open>rand()\<close>, and the \<open>trace\<close> of what the agent has
  done so far. The trace records the calls of the four operations of the main loop,
  the HTTP requests that reach \<^verbatim>\<open>curl_easy_perform\<close> and every \<^verbatim>\<open>utils_sleep\<close>.
  Log output is not modelled. Pointer arguments that the program never passes as
  \<^verbatim>\<open>NULL\<close> (\<^verbatim>\<open>ctx\<close> and the out parameters) are taken as given.
\<close>

datatype event =
    HeartbeatSend
  | JobPoll
  | JobExecute "string option"
  | JobSubmitResults "string option"
  | HttpPost string
  | HttpGet string
  | Sleep int

datatype http_outcome =
    CurlInitFailed
  | PerformFailed
  | Response int string

record world =
  net :: "nat \<Rightarrow> http_outcome"
  net_calls :: nat
  clock :: "nat \<Rightarrow> int"
  clock_calls :: nat
  rand_values :: "nat \<Rightarrow> nat"
  rand_calls :: nat
  scan_documents :: "nat \<Rightarrow> string"
  scan_calls :: nat
  trace :: "event list"

definition emit :: "event \<Rightarrow> world \<Rightarrow> world" where
  "emit e w = w\<lparr>trace := trace w @ [e]\<rparr>"

definition time_now :: "world \<Rightarrow> int \<times> world" where
  \<comment> \<open>\<^verbatim>\<open>time(NULL)\<close>\<close>
  "time_now w = (clock w (clock_calls w), w\<lparr>clock_calls := Suc (clock_calls w)\<rparr>)"

definition utils_sleep :: "int \<Rightarrow> world \<Rightarrow> world" where
  "utils_sleep seconds w = emit (Sleep seconds) w"

definition utils_get_random_jitter_ms :: "int \<Rightarrow> world \<Rightarrow> int \<times> world" where
  \<comment> \<open>\<^verbatim>\<open>srand((unsigned int)time(NULL)); return rand() % max_jitter_ms;\<close>\<close>
  "utils_get_random_jitter_ms max_jitter_ms w =
     (if max_jitter_ms \<le> 0 then (0, w)
      else (case time_now w of
              (seed, w1) \<Rightarrow>
                (int (rand_values w1 (rand_calls w1)) mod max_jitter_ms,
                 w1\<lparr>rand_calls := Suc (rand_calls w1)\<rparr>)))"


definition utils_build_url :: "string option \<Rightarrow> string option \<Rightarrow> string option" where
  "utils_build_url base path =
     (case base of
        None \<Rightarrow> None
      | Some b \<Rightarrow>
          (case path of
             None \<Rightarrow> None
           | Some p \<Rightarrow>
               (let needs_slash = ((b \<noteq> [] \<and> last b \<noteq> CHR ''/'') \<and> (p \<noteq> [] \<and> hd p \<noteq> CHR ''/''))
                in Some (b @ (if needs_slash then ''/'' else []) @ p))))"

record http_response =
  status_code :: int
  body :: string

definition curl_transfer :: "event \<Rightarrow> world \<Rightarrow> http_outcome \<times> world" where
  \<comment> \<open>\<^verbatim>\<open>curl_easy_init\<close> followed by \<^verbatim>\<open>curl_easy_perform\<close>: the request is recorded
      unless no handle could be created\<close>
  "curl_transfer request w =
     (let outcome = net w (net_calls w);
          w1 = w\<lparr>net_calls := Suc (net_calls w)\<rparr>
      in (outcome, if outcome = CurlInitFailed then w1 else emit request w1))"

definition http_post ::
  "string option \<Rightarrow> string option \<Rightarrow> string option \<Rightarrow> world \<Rightarrow> bool \<times> http_response option \<times> world" where
  \<comment> \<open>the result of the call and what \<^verbatim>\<open>*response_out\<close> holds afterwards\<close>
  "http_post url token json_body w =
     (case url of
        None \<Rightarrow> (False, None, w)
      | Some u \<Rightarrow>
          if json_body = None then (False, None, w)
          else (case curl_transfer (HttpPost u) w of
                  (CurlInitFailed, w1) \<Rightarrow> (False, None, w1)
                | (PerformFailed, w1) \<Rightarrow> (False, Some \<lparr>status_code = 0, body = []\<rparr>, w1)
                | (Response st b, w1) \<Rightarrow> (True, Some \<lparr>status_code = st, body = c_str b\<rparr>, w1)))"

definition json_value_start :: "string \<Rightarrow> string \<Rightarrow> string option" where
  \<comment> \<open>\<^verbatim>\<open>strstr\<close> for the quoted key, then \<^verbatim>\<open>strchr\<close> for the colon: the text after the colon\<close>
  "json_value_start json_str key =
     (case c_strstr json_str (CHR 0x22 # key @ [CHR 0x22]) of
        None \<Rightarrow> None
      | Some key_pos \<Rightarrow>
          (case c_strchr key_pos CHR '':'' of None \<Rightarrow> None | Some (b, a) \<Rightarrow> Some a))"

definition http_parse_json_string :: "string \<Rightarrow> string \<Rightarrow> string option" where
  "http_parse_json_string json_str key =
     (case json_value_start json_str key of
        None \<Rightarrow> None
      | Some a \<Rightarrow>
          (case dropWhile is_blank a of
             [] \<Rightarrow> None
           | c # cs \<Rightarrow>
               if c = CHR 0x22
               then (case c_strchr cs (CHR 0x22) of None \<Rightarrow> None | Some (v, r) \<Rightarrow> Some v)
               else None))"

definition http_parse_json_bool :: "string \<Rightarrow> string \<Rightarrow> bool option" where
  "http_parse_json_bool json_str key =
     (case json_value_start json_str key of
        None \<Rightarrow> None
      | Some a \<Rightarrow>
          (let value_start = dropWhile is_blank a
           in if starts_with value_start ''true'' then Some True
              else if starts_with value_start ''false'' then Some False
              else None))"

definition http_parse_json_int :: "string \<Rightarrow> string \<Rightarrow> int option" where
  "http_parse_json_int json_str key =
     (case json_value_start json_str key of None \<Rightarrow> None | Some a \<Rightarrow> Some (atoi a))"

section \<open>The agent context and the heartbeat (\<^verbatim>\<open>agent.h\<close>, \<^verbatim>\<open>heartbeat.c\<close>)\<close>

datatype agent_state =
    AGENT_STATE_INITIALIZING
  | AGENT_STATE_REGISTERING
  | AGENT_STATE_ACTIVE
  | AGENT_STATE_UNAUTHORIZED
  | AGENT_STATE_ERROR
  | AGENT_STATE_SHUTDOWN

record agent_context =
  config :: agent_config
  state :: agent_state
  authorized :: bool
  last_heartbeat :: int
  retry_count :: int
  operating_system :: "string option"
  architecture :: "string option"
  ip_addresses :: "string list"

record heartbeat_response =
  hb_accepted :: bool
  hb_config_updated :: bool
  hb_next_heartbeat_in_seconds :: int
  hb_authorized :: bool

definition parse_heartbeat_response :: "string \<Rightarrow> heartbeat_response" where
  \<comment> \<open>The structure comes zeroed from \<^verbatim>\<open>calloc\<close>; a field whose parse fails keeps the zero.\<close>
  "parse_heartbeat_response b =
     \<lparr>hb_accepted = (case http_parse_json_string b ''status'' of
                       None \<Rightarrow> False | Some status \<Rightarrow> status = ''accepted''),
      hb_config_updated = (case http_parse_json_bool b ''config_updated'' of
                             None \<Rightarrow> False | Some v \<Rightarrow> v),
      hb_next_heartbeat_in_seconds =
         (case http_parse_json_int b ''next_heartbeat_in_seconds'' of None \<Rightarrow> 0 | Some n \<Rightarrow> n),
      hb_authorized = (case http_parse_json_bool b ''authorized'' of
                         None \<Rightarrow> False | Some v \<Rightarrow> v)\<rparr>"

definition heartbeat_send ::
  "agent_context \<Rightarrow> world \<Rightarrow> err \<times> heartbeat_response option \<times> agent_context \<times> world" where
  \<comment> \<open>The JSON text of the request has no influence on what follows and is left out; the
      second component is what \<^verbatim>\<open>*response_out\<close> receives.\<close>
  "heartbeat_send ctx w0 =
     (let w = emit HeartbeatSend w0 in
      case utils_build_url (controller_url (config ctx)) (Some ''/api/v1/agents/heartbeat'') of
        None \<Rightarrow> (ERR_NETWORK_UNREACHABLE, None, ctx, w)
      | Some heartbeat_url \<Rightarrow>
          (case http_post (Some heartbeat_url) (auth_token (config ctx)) (Some []) w of
             (success, None, w1) \<Rightarrow> (ERR_NETWORK_UNREACHABLE, None, ctx, w1)
           | (success, Some r, w1) \<Rightarrow>
               if \<not> success then (ERR_NETWORK_UNREACHABLE, None, ctx, w1)
               else if status_code r = 401 then (ERR_AUTH_FAILED, None, ctx, w1)
               else if status_code r \<noteq> 200 then (ERR_SERVER_ERROR, None, ctx, w1)
               else (let response = parse_heartbeat_response (body r)
                     in case time_now w1 of
                          (now, w2) \<Rightarrow>
                            (ERR_SUCCESS, Some response,
                             ctx\<lparr>authorized := hb_authorized response, last_heartbeat := now\<rparr>,
                             w2))))"

definition int_shl :: "int \<Rightarrow> int \<Rightarrow> int" where
  \<comment> \<open>\<^verbatim>\<open>x << n\<close> on \<^verbatim>\<open>int\<close>, for a count that is not negative. ISO C defines it only when
      \<open>n < 32\<close> and \<open>x * 2 ^ n\<close> fits. The compiled code (x86-64, AArch64) takes the count
      modulo 32 and keeps the low 32 bits of the product.\<close>
  "int_shl x n = int32 (x * 2 ^ (nat n mod 32))"

definition int_mul :: "int \<Rightarrow> int \<Rightarrow> int" where
  \<comment> \<open>\<^verbatim>\<open>x * y\<close> on \<^verbatim>\<open>int\<close>, cut to 32 bits where ISO C leaves the overflow undefined\<close>
  "int_mul x y = int32 (x * y)"

function retry_loop ::
  "int \<Rightarrow> int \<Rightarrow> int \<Rightarrow> int \<Rightarrow> agent_context \<Rightarrow> world
     \<Rightarrow> err \<times> heartbeat_response option \<times> agent_context \<times> world" where
  "retry_loop max_attempts base_delay max_jitter attempt ctx w =
     (if attempt \<le> max_attempts then
        (case heartbeat_send ctx w of
           (result, response, ctx1, w1) \<Rightarrow>
             if result = ERR_SUCCESS then (ERR_SUCCESS, response, ctx1\<lparr>retry_count := 0\<rparr>, w1)
             else if result = ERR_AUTH_FAILED then (result, response, ctx1, w1)
             else if attempt < max_attempts then
               (let backoff_multiplier = int_shl 1 (attempt - 1);
                    delay_seconds = int_mul base_delay backoff_multiplier
                in case utils_get_random_jitter_ms max_jitter w1 of
                     (jitter_ms, w2) \<Rightarrow>
                       (let w3 = utils_sleep delay_seconds w2;
                            w4 = (if jitter_ms > 0 then utils_sleep (jitter_ms div 1000) w3 else w3)
                        in retry_loop max_attempts base_delay max_jitter (attempt + 1) ctx1 w4))
             else retry_loop max_attempts base_delay max_jitter (attempt + 1) ctx1 w1)
      else (ERR_NETWORK_UNREACHABLE, None, ctx\<lparr>retry_count := retry_count ctx + 1\<rparr>, w))"
  by pat_completeness auto
termination
  by (relation "measure (\<lambda>(max_attempts, base_delay, max_jitter, attempt, ctx, w).
                           nat (max_attempts + 1 - attempt))") auto

declare retry_loop.simps [simp del]

definition heartbeat_send_with_retry ::
  "agent_context \<Rightarrow> world \<Rightarrow> err \<times> heartbeat_response option \<times> agent_context \<times> world" where
  \<comment> \<open>The three locals are read once, before the loop. The loop counter is not cut to
      32 bits: it would leave the range of \<^verbatim>\<open>int\<close> only after \<open>2 ^ 31 - 1\<close> attempts.\<close>
  "heartbeat_send_with_retry ctx w =
     (let max_attempts = retry_attempts (config ctx);
          base_delay = retry_delay_seconds (config ctx);
          max_jitter = int_mul (max_jitter_seconds (config ctx)) 1000
      in retry_loop max_attempts base_delay max_jitter 1 ctx w)"

section \<open>Jobs (\<^verbatim>\<open>job_processor.c\<close>) and the main loop (\<^verbatim>\<open>agent.c\<close>)\<close>

record job =
  job_id :: "string option"
  scan_id :: "string option"
  job_type :: "string option"
  priority :: "string option"
  created_at :: "string option"
  config_json :: "string option"

record job_list =
  jobs :: "job list option"
  job_count :: int

definition job_poll :: "agent_context \<Rightarrow> world \<Rightarrow> err \<times> job_list option \<times> world" where
  \<comment> \<open>Both branches after the status checks store \<^verbatim>\<open>job_count = 0\<close> and \<^verbatim>\<open>jobs = NULL\<close>.\<close>
  "job_poll ctx w0 =
     (let w = emit JobPoll w0 in
      case utils_build_url (controller_url (config ctx)) (Some ''/api/v1/agents/jobs'') of
        None \<Rightarrow> (ERR_NETWORK_UNREACHABLE, None, w)
      | Some jobs_url \<Rightarrow>
          (case curl_transfer (HttpGet jobs_url) w of
             (CurlInitFailed, w1) \<Rightarrow> (ERR_NETWORK_UNREACHABLE, None, w1)
           | (PerformFailed, w1) \<Rightarrow> (ERR_NETWORK_UNREACHABLE, None, w1)
           | (Response st b, w1) \<Rightarrow>
               if st = 401 then (ERR_AUTH_FAILED, None, w1)
               else if st \<noteq> 200 then (ERR_SERVER_ERROR, None, w1)
               else if c_strstr (c_str b) (CHR 0x22 # ''jobs'' @ CHR 0x22 # '': []'') \<noteq> None
                       \<or> c_strstr (c_str b) (CHR 0x22 # ''jobs'' @ CHR 0x22 # '':[]'') \<noteq> None
               then (ERR_SUCCESS, Some \<lparr>jobs = None, job_count = 0\<rparr>, w1)
               else (ERR_SUCCESS, Some \<lparr>jobs = None, job_count = 0\<rparr>, w1)))"

definition job_execute :: "agent_context \<Rightarrow> job \<Rightarrow> world \<Rightarrow> err \<times> string option \<times> world" where
  \<comment> \<open>The clock is read before and after the scan (\<^verbatim>\<open>utils_get_iso8601_timestamp\<close>). The
      scan runs external commands; the model takes the text of the results document from
      the environment. With non-NULL arguments the function always returns
      \<open>ERR_SUCCESS\<close> and a document.\<close>
  "job_execute ctx j w0 =
     (let w = emit (JobExecute (job_id j)) w0 in
      case time_now w of
        (started_at, w1) \<Rightarrow>
          (let results = scan_documents w1 (scan_calls w1);
               w2 = w1\<lparr>scan_calls := Suc (scan_calls w1)\<rparr>
           in case time_now w2 of
                (completed_at, w3) \<Rightarrow> (ERR_SUCCESS, Some results, w3)))"

definition results_path :: "string \<Rightarrow> string" where
  \<comment> \<open>\<^verbatim>\<open>snprintf(path, 512, "/api/v1/agents/jobs/%s/results", job_id)\<close>\<close>
  "results_path jid = take 511 (''/api/v1/agents/jobs/'' @ jid @ ''/results'')"

definition job_submit_results ::
  "agent_context \<Rightarrow> string option \<Rightarrow> string option \<Rightarrow> string option \<Rightarrow> world \<Rightarrow> err \<times> world" where
  "job_submit_results ctx jid sid results_json w0 =
     (let w = emit (JobSubmitResults jid) w0 in
      case jid of
        None \<Rightarrow> (ERR_JOB_EXECUTION_FAILED, w)
      | Some job_id_text \<Rightarrow>
          if sid = None \<or> results_json = None then (ERR_JOB_EXECUTION_FAILED, w)
          else (case utils_build_url (controller_url (config ctx)) (Some (results_path job_id_text)) of
                  None \<Rightarrow> (ERR_NETWORK_UNREACHABLE, w)
                | Some results_url \<Rightarrow>
                    (case http_post (Some results_url) (auth_token (config ctx)) results_json w of
                       (success, None, w1) \<Rightarrow> (ERR_NETWORK_UNREACHABLE, w1)
                     | (success, Some r, w1) \<Rightarrow>
                         if \<not> success then (ERR_NETWORK_UNREACHABLE, w1)
                         else if status_code r = 401 then (ERR_AUTH_FAILED, w1)
                         else if status_code r \<noteq> 202 then (ERR_SERVER_ERROR, w1)
                         else (ERR_SUCCESS, w1))))"

fun job_loop :: "agent_context \<Rightarrow> job list \<Rightarrow> world \<Rightarrow> world" where
  \<comment> \<open>the \<^verbatim>\<open>for\<close> loop over the polled jobs; the result of the submission is not looked at\<close>
  "job_loop ctx [] w = w"
| "job_loop ctx (j # rest) w =
     (case job_execute ctx j w of
        (exec_result, results_json, w1) \<Rightarrow>
          job_loop ctx rest
            (if exec_result = ERR_SUCCESS \<and> results_json \<noteq> None
             then snd (job_submit_results ctx (job_id j) (scan_id j) results_json w1)
             else w1))"

definition listed_jobs :: "job_list \<Rightarrow> job list" where
  \<comment> \<open>the elements \<^verbatim>\<open>jobs->jobs[0 .. job_count - 1]\<close>\<close>
  "listed_jobs jl = (case jobs jl of None \<Rightarrow> [] | Some js \<Rightarrow> take (nat (job_count jl)) js)"

definition agent_iteration :: "agent_context \<Rightarrow> world \<Rightarrow> agent_context \<times> world" where
  \<comment> \<open>one pass through the body of \<^verbatim>\<open>while (1)\<close> in \<^verbatim>\<open>agent_run\<close>\<close>
  "agent_iteration ctx w =
     (case heartbeat_send_with_retry ctx w of
        (hb_result, hb_response, ctx1, w1) \<Rightarrow>
          if hb_result \<noteq> ERR_SUCCESS
          then (ctx1, utils_sleep (heartbeat_interval_seconds (config ctx1)) w1)
          else if \<not> authorized ctx1
          then (ctx1\<lparr>state := AGENT_STATE_UNAUTHORIZED\<rparr>,
                utils_sleep (heartbeat_interval_seconds (config ctx1)) w1)
          else (let ctx2 = (if state ctx1 \<noteq> AGENT_STATE_ACTIVE
                            then ctx1\<lparr>state := AGENT_STATE_ACTIVE\<rparr> else ctx1)
                in case job_poll ctx2 w1 of
                     (job_result, polled, w2) \<Rightarrow>
                       (let w3 = (case polled of
                                    None \<Rightarrow> w2
                                  | Some jl \<Rightarrow>
                                      if job_result = ERR_SUCCESS
                                      then (if job_count jl > 0 then job_loop ctx2 (listed_jobs jl) w2 else w2)
                                      else w2)
                        in (ctx2, utils_sleep (heartbeat_interval_seconds (config ctx2)) w3))))"

fun agent_run :: "nat \<Rightarrow> agent_context \<Rightarrow> world \<Rightarrow> agent_context \<times> world" where
  \<comment> \<open>The loop of \<^verbatim>\<open>agent_run\<close> has no exit: this is the state after \<open>n\<close> passes.\<close>
  "agent_run 0 ctx w = (ctx, w)"
| "agent_run (Suc n) ctx w = (case agent_iteration ctx w of (ctx1, w1) \<Rightarrow> agent_run n ctx1 w1)"

section \<open>Scan results (\<^verbatim>\<open>nasl_executor.c\<close>)\<close>

text \<open>
  The severity is a C \<^verbatim>\<open>float\<close>. Its comparisons with the constants 7.0 and 4.0 are exact
  (the promotion to \<^verbatim>\<open>double\<close> loses nothing), so a finite value is modelled by the real
  number it stands for; the infinities and NaN are values of their own, and every
  comparison with NaN is false.
\<close>

datatype c_float = Finite real | PosInf | NegInf | NaN

fun float_ge :: "c_float \<Rightarrow> real \<Rightarrow> bool" where
  "float_ge (Finite x) c = (c \<le> x)"
| "float_ge PosInf c = True"
| "float_ge NegInf c = False"
| "float_ge NaN c = False"

record scan_result =
  nvt_oid :: "string option"
  nvt_name :: "string option"
  severity :: c_float
  cvss_base_vector :: "string option"
  host :: "string option"
  port :: "string option"
  threat :: "string option"
  description :: "string option"
  qod :: int

definition create_scan_result ::
  "bool \<Rightarrow> string option \<Rightarrow> string option \<Rightarrow> c_float \<Rightarrow> string option \<Rightarrow> string option
     \<Rightarrow> string option \<Rightarrow> scan_result option" where
  \<comment> \<open>\<open>calloc_ok\<close> is the outcome of the allocation of the result\<close>
  "create_scan_result calloc_ok oid name sev h p descr =
     (if \<not> calloc_ok then None
      else Some \<lparr>nvt_oid = oid, nvt_name = name, severity = sev,
                 cvss_base_vector = Some ''AV:N/AC:L/Au:N/C:N/I:N/A:N'',
                 host = h, port = p,
                 threat = (if float_ge sev 7 then Some ''High''
                           else if float_ge sev 4 then Some ''Medium''
                           else Some ''Low''),
                 description = descr, qod = 70\<rparr>)"

definition basic_check ::
  "bool \<Rightarrow> bool \<Rightarrow> string \<Rightarrow> string \<Rightarrow> string option \<Rightarrow> string \<Rightarrow> string \<Rightarrow> scan_result list" where
  \<comment> \<open>one check of \<^verbatim>\<open>nasl_executor_run_basic_checks\<close>: when the probe command succeeds and
      the result can be allocated, a result of severity 0.0\<close>
  "basic_check probe_ok calloc_ok oid name target p descr =
     (if probe_ok
      then (case create_scan_result calloc_ok (Some oid) (Some name) (Finite 0) target (Some p) (Some descr) of
              None \<Rightarrow> []
            | Some r \<Rightarrow> [r])
      else [])"

definition nasl_executor_run_basic_checks ::
  "bool \<Rightarrow> bool \<Rightarrow> bool \<Rightarrow> bool \<Rightarrow> string option \<Rightarrow> err \<times> scan_result list" where
  \<comment> \<open>the three booleans are the outcomes of the probes of the ports 22, 80 and 443\<close>
  "nasl_executor_run_basic_checks ssh http https calloc_ok target =
     (if target = None then (ERR_JOB_EXECUTION_FAILED, [])
      else (ERR_SUCCESS,
            basic_check ssh calloc_ok ''1.3.6.1.4.1.25623.1.0.900001'' ''SSH Service Detection''
              target ''22/tcp'' ''SSH service is running on port 22''
            @ basic_check http calloc_ok ''1.3.6.1.4.1.25623.1.0.900002'' ''HTTP Service Detection''
              target ''80/tcp'' ''HTTP service is running on port 80''
            @ basic_check https calloc_ok ''1.3.6.1.4.1.25623.1.0.900003'' ''HTTPS Service Detection''
              target ''443/tcp'' ''HTTPS service is running on port 443''))"

definition threat_labels :: "string list" where
  "threat_labels = [''Log'', ''Low'', ''Medium'', ''High'', ''Critical'']"

definition well_labelled :: "scan_result \<Rightarrow> bool" where
  "well_labelled r = (threat r \<in> set (map Some threat_labels))"

section \<open>System information (\<^verbatim>\<open>agent.c\<close>)\<close>

text \<open>
  The addresses of the host come from \<^verbatim>\<open>getifaddrs\<close> or, in the build for Windows, from
  \<^verbatim>\<open>GetAdaptersAddresses\<close>. An address is given by its family and by the text that
  \<^verbatim>\<open>inet_ntop\<close> prints for it. The operating system and the architecture, which the
  function also reports, are left out.
\<close>

datatype sa_family = AF_INET | AF_INET6 | AF_OTHER

datatype interfaces =
    Ifaddrs "(sa_family \<times> string) option list option"
  | Adapters "(sa_family \<times> string) list list option"

fun collect_ifaddrs :: "(sa_family \<times> string) option list \<Rightarrow> string list \<Rightarrow> string list" where
  \<comment> \<open>\<^verbatim>\<open>for (ifa = ifaddr; ifa != NULL && ip_count < 16; ifa = ifa->ifa_next)\<close>; an entry is
      \<open>None\<close> when its \<^verbatim>\<open>ifa_addr\<close> is \<^verbatim>\<open>NULL\<close>\<close>
  "collect_ifaddrs [] collected = collected"
| "collect_ifaddrs (ifa # rest) collected =
     (if length collected < 16
      then (case ifa of
              None \<Rightarrow> collect_ifaddrs rest collected
            | Some (family, ip) \<Rightarrow>
                if family = AF_INET
                then (if ip \<noteq> ''127.0.0.1''
                      then collect_ifaddrs rest (collected @ [ip])
                      else collect_ifaddrs rest collected)
                else collect_ifaddrs rest collected)
      else collected)"

fun collect_unicast :: "(sa_family \<times> string) list \<Rightarrow> string list \<Rightarrow> string list" where
  \<comment> \<open>\<^verbatim>\<open>while (unicast && ip_count < 16)\<close>\<close>
  "collect_unicast [] collected = collected"
| "collect_unicast ((family, ip) # rest) collected =
     (if length collected < 16
      then (if family = AF_INET
            then collect_unicast rest (collected @ [ip])
            else collect_unicast rest collected)
      else collected)"

fun collect_adapters :: "(sa_family \<times> string) list list \<Rightarrow> string list \<Rightarrow> string list" where
  \<comment> \<open>\<^verbatim>\<open>while (adapter && ip_count < 16)\<close>\<close>
  "collect_adapters [] collected = collected"
| "collect_adapters (adapter # rest) collected =
     (if length collected < 16
      then collect_adapters rest (collect_unicast adapter collected)
      else collected)"

definition agent_get_system_info :: "bool \<Rightarrow> interfaces \<Rightarrow> err \<times> string list" where
  \<comment> \<open>\<open>outs_ok\<close>: none of the out parameters is \<^verbatim>\<open>NULL\<close>. The list is what \<^verbatim>\<open>*ips_out\<close> and
      \<^verbatim>\<open>*ip_count_out\<close> describe.\<close>
  "agent_get_system_info outs_ok ifs =
     (if \<not> outs_ok then (ERR_INVALID_RESPONSE, [])
      else (let collected =
                  (case ifs of
                     Ifaddrs None \<Rightarrow> []
                   | Ifaddrs (Some ifaddr) \<Rightarrow> collect_ifaddrs ifaddr []
                   | Adapters None \<Rightarrow> []
                   | Adapters (Some adapter_addresses) \<Rightarrow> collect_adapters adapter_addresses [])
            in (ERR_SUCCESS, if collected = [] then [''127.0.0.1''] else collected)))"

section \<open>Traces\<close>

text \<open>
  What a function adds to the trace, and the events that the heartbeat and the main loop
  can add for a given controller URL.
\<close>

definition new_events :: "world \<Rightarrow> world \<Rightarrow> event list" where
  "new_events w w' = drop (length (trace w)) (trace w')"

definition extends :: "(event \<Rightarrow> bool) \<Rightarrow> world \<Rightarrow> world \<Rightarrow> bool" where
  "extends P w w' = (trace w' = trace w @ new_events w w' \<and> list_all P (new_events w w'))"

fun heartbeat_event :: "string option \<Rightarrow> event \<Rightarrow> bool" where
  "heartbeat_event base HeartbeatSend = True"
| "heartbeat_event base (Sleep n) = True"
| "heartbeat_event base (HttpPost u) = (utils_build_url base (Some ''/api/v1/agents/heartbeat'') = Some u)"
| "heartbeat_event base e = False"

fun agent_event :: "string option \<Rightarrow> event \<Rightarrow> bool" where
  "agent_event base JobPoll = True"
| "agent_event base (HttpGet u) = (utils_build_url base (Some ''/api/v1/agents/jobs'') = Some u)"
| "agent_event base (JobExecute j) = False"
| "agent_event base (JobSubmitResults j) = False"
| "agent_event base e = heartbeat_event base e"

fun job_event :: "string option \<Rightarrow> job list \<Rightarrow> event \<Rightarrow> bool" where
  \<comment> \<open>what the job loop can add to the trace for the given jobs: the two calls, and a
      POST of the results path of one of the jobs\<close>
  "job_event base js (JobExecute j) = (j \<in> set (map job_id js))"
| "job_event base js (JobSubmitResults j) = (j \<in> set (map job_id js))"
| "job_event base js (HttpPost u) =
     (Some u \<in> set (map (\<lambda>j. case job_id j of
                                  None \<Rightarrow> None
                                | Some jid \<Rightarrow> utils_build_url base (Some (results_path jid))) js))"
| "job_event base js e = False"

definition sends :: "world \<Rightarrow> nat" where
  "sends w = length (filter (\<lambda>e. e = HeartbeatSend) (trace w))"

section \<open>The specification's statements about the agent\<close>

text \<open>
  Statements of the specification about runs of the agent, as predicates on runs of the
  model: the pull of an updated configuration, the finalize request after the submission
  of results, and the waits between the attempts of a heartbeat. The strict schema of the
  configuration file is \<open>rejects_unknown_keys\<close> above. They come with the relation
  between two environments that differ only in the \<open>config_updated\<close> of the answers.
\<close>

definition config_pull_follows :: "agent_context \<Rightarrow> world \<Rightarrow> nat \<Rightarrow> bool" where
  \<comment> \<open>the propagation of a configuration update as the specification words it: when the
      heartbeat of the first pass reports \<open>config_updated\<close>, a \<^verbatim>\<open>GET /api/v1/agents/config\<close>
      is among the requests of the first \<open>n\<close> passes\<close>
  "config_pull_follows ctx w n =
     (case fst (snd (heartbeat_send_with_retry ctx w)) of
        None \<Rightarrow> True
      | Some r \<Rightarrow>
          if hb_config_updated r
          then (case utils_build_url (controller_url (config ctx)) (Some ''/api/v1/agents/config'') of
                  None \<Rightarrow> False
                | Some u \<Rightarrow> HttpGet u \<in> set (new_events w (snd (agent_run n ctx w))))
          else True)"

definition complete_path :: "string \<Rightarrow> string" where
  \<comment> \<open>the path of the finalize request as the specification gives it:
      \<^verbatim>\<open>/api/v1/agents/jobs/{id}/complete\<close>\<close>
  "complete_path jid = ''/api/v1/agents/jobs/'' @ jid @ ''/complete''"

definition finalize_follows_submit :: "string option \<Rightarrow> string \<Rightarrow> event list \<Rightarrow> bool" where
  \<comment> \<open>the claim about one job: its results are posted and a POST of the finalize path
      comes after that\<close>
  "finalize_follows_submit base jid evs =
     (case utils_build_url base (Some (results_path jid)) of
        None \<Rightarrow> False
      | Some ru \<Rightarrow>
          (case utils_build_url base (Some (complete_path jid)) of
             None \<Rightarrow> False
           | Some cu \<Rightarrow> HttpPost cu \<in> set (dropWhile (\<lambda>e. e \<noteq> HttpPost ru) evs)))"






definition same_reply :: "http_outcome \<Rightarrow> http_outcome \<Rightarrow> bool" where
  \<comment> \<open>two answers of the controller that differ at most in what a heartbeat response
      parsed from them holds in \<open>config_updated\<close>\<close>
  "same_reply x y =
     (case x of
        Response st b \<Rightarrow>
          (case y of
             Response st' b' \<Rightarrow>
               st = st'
               \<and> (parse_heartbeat_response (c_str b))\<lparr>hb_config_updated := False\<rparr>
                   = (parse_heartbeat_response (c_str b'))\<lparr>hb_config_updated := False\<rparr>
           | _ \<Rightarrow> False)
      | _ \<Rightarrow> x = y)"

definition same_but_flag :: "world \<Rightarrow> world \<Rightarrow> bool" where
  \<comment> \<open>two environments that differ at most in the \<open>config_updated\<close> of their answers\<close>
  "same_but_flag w w' =
     (net_calls w = net_calls w' \<and> clock w = clock w' \<and> clock_calls w = clock_calls w'
      \<and> rand_values w = rand_values w' \<and> rand_calls w = rand_calls w'
      \<and> scan_documents w = scan_documents w' \<and> scan_calls w = scan_calls w'
      \<and> trace w = trace w' \<and> (\<forall>n. same_reply (net w n) (net w' n)))"

section \<open>Example inputs\<close>

text \<open>A loaded configuration, a context and scripted environments for the examples below.\<close>

definition example_config :: agent_config where
  "example_config = config_defaults\<lparr>controller_url := Some ''https://c.test'',
                                      auth_token := Some ''tok''\<rparr>"

definition example_ctx :: agent_context where
  "example_ctx =
     \<lparr>config = example_config, state = AGENT_STATE_REGISTERING, authorized = False,
      last_heartbeat = 0, retry_count = 0, operating_system = Some ''Linux'',
      architecture = Some ''x86_64'', ip_addresses = [''192.0.2.7'']\<rparr>"

definition example_job :: job where
  "example_job = \<lparr>job_id = Some ''J1'', scan_id = Some ''S1'', job_type = Some ''vulnerability_scan'',
                   priority = Some ''normal'', created_at = Some ''2025-01-15T10:25:00Z'',
                   config_json = Some ''{}''\<rparr>"

definition example_world :: "http_outcome list \<Rightarrow> http_outcome \<Rightarrow> world" where
  \<comment> \<open>the transfers are answered from the list, then always by the second argument\<close>
  "example_world replies later =
     \<lparr>net = (\<lambda>n. if n < length replies then replies ! n else later), net_calls = 0,
      clock = (\<lambda>n. 1700000000), clock_calls = 0,
      rand_values = (\<lambda>n. 12345), rand_calls = 0,
      scan_documents = (\<lambda>n. ''{}''), scan_calls = 0, trace = []\<rparr>"

definition json_field :: "string \<Rightarrow> string \<Rightarrow> string" where
  "json_field k v = CHR 0x22 # k @ CHR 0x22 # '': '' @ v"

definition heartbeat_body :: "string \<Rightarrow> string \<Rightarrow> string" where
  \<comment> \<open>a heartbeat response with the given values of \<open>config_updated\<close> and \<open>authorized\<close>\<close>
  "heartbeat_body updated auth =
     ''{'' @ json_field ''status'' (CHR 0x22 # ''accepted'' @ [CHR 0x22]) @ '', ''
          @ json_field ''config_updated'' updated @ '', ''
          @ json_field ''next_heartbeat_in_seconds'' ''600'' @ '', ''
          @ json_field ''authorized'' auth @ ''}''"

definition jobs_body :: string where
  \<comment> \<open>a poll response that lists one job\<close>
  "jobs_body = ''{'' @ json_field ''jobs''
                 (''[{'' @ json_field ''job_id'' (CHR 0x22 # ''J1'' @ [CHR 0x22]) @ ''}]'') @ ''}''"

definition unauthorized_world :: world where
  \<comment> \<open>every transfer is answered by a heartbeat response with \<open>authorized\<close> false\<close>
  "unauthorized_world = example_world [] (Response 200 (heartbeat_body ''false'' ''false''))"

definition listing_world :: world where
  \<comment> \<open>every transfer is answered with status 200 and a body that lists one job\<close>
  "listing_world = example_world [] (Response 200 jobs_body)"

definition update_world :: world where
  \<comment> \<open>the first heartbeat reports \<open>config_updated\<close> and \<open>authorized\<close>, the poll lists a job\<close>
  "update_world =
     example_world [Response 200 (heartbeat_body ''true'' ''true''), Response 200 jobs_body]
       (Response 200 (heartbeat_body ''false'' ''true''))"



definition accepting_world :: world where
  \<comment> \<open>the controller answers every request with status 202\<close>
  "accepting_world = example_world [] (Response 202 [])"

definition quiet_world :: world where
  \<comment> \<open>\<open>update_world\<close> with \<open>config_updated\<close> false in the first heartbeat response\<close>
  "quiet_world =
     example_world [Response 200 (heartbeat_body ''false'' ''true''), Response 200 jobs_body]
       (Response 200 (heartbeat_body ''false'' ''true''))"



definition long_comment_file :: string where
  \<comment> \<open>a \<open>controller\<close> section with a token and a comment line of 1044 bytes whose last
      21 bytes read \<open>url = https://c.test\<close>\<close>
  "long_comment_file =
     ''[controller]\<newline>auth_token = tok\<newline>''
     @ CHR ''#'' # replicate 1022 CHR ''x'' @ ''url = https://c.test\<newline>''"

definition wrapping_interval_file :: string where
  \<comment> \<open>the two required keys and an interval of \<open>-4294967236\<close>, that is \<open>60 - 2 ^ 32\<close>\<close>
  "wrapping_interval_file =
     ''[controller]\<newline>url = https://c.test\<newline>auth_token = tok\<newline>[heartbeat]\<newline>interval_in_seconds = -4294967236\<newline>''"

definition large_interval_file :: string where
  \<comment> \<open>the two required keys and an interval of \<open>2147483708\<close>, that is \<open>2 ^ 31 + 60\<close>\<close>
  "large_interval_file =
     ''[controller]\<newline>url = https://c.test\<newline>auth_token = tok\<newline>[heartbeat]\<newline>interval_in_seconds = 2147483708\<newline>''"

section \<open>Properties of the configuration loader\<close>

lemma assigned_found:
  "assigned sec key ls cur found =
     (case assigned sec key ls cur None of None \<Rightarrow> found | Some v \<Rightarrow> Some v)"
proof (induction ls arbitrary: cur found)
  case Nil
  show ?case by simp
next
  case (Cons l ls)
  show ?case
  proof (cases "classify_line l")
    case Skip
    with Cons.IH [of cur found] show ?thesis by simp
  next
    case (Section name)
    with Cons.IH [of "take 63 name" found] show ?thesis by simp
  next
    case (Assign k v)
    show ?thesis
    proof (cases "cur = sec \<and> k = key")
      case True
      have "assigned sec key ls cur (Some v) \<noteq> None"
        using Cons.IH [of cur "Some v"] by (simp split: option.splits)
      then obtain w where w: "assigned sec key ls cur (Some v) = Some w" by auto
      have "assigned sec key (l # ls) cur found = Some w"
        and "assigned sec key (l # ls) cur None = Some w"
        using Assign True w by simp_all
      then show ?thesis by simp
    next
      case False
      have "assigned sec key (l # ls) cur found = assigned sec key ls cur found"
        and "assigned sec key (l # ls) cur None = assigned sec key ls cur None"
        using Assign False by auto
      then show ?thesis using Cons.IH [of cur found] by simp
    qed
  qed
qed

lemma controller_url_assigned:
  "controller_url (config_lines ls cur cfg) = assigned ''controller'' ''url'' ls cur (controller_url cfg)"
  by (induction ls arbitrary: cur cfg) (auto simp: config_set_def split: line_item.splits)

lemma auth_token_assigned:
  "auth_token (config_lines ls cur cfg) = assigned ''controller'' ''auth_token'' ls cur (auth_token cfg)"
  by (induction ls arbitrary: cur cfg) (auto simp: config_set_def split: line_item.splits)

lemma interval_assigned:
  "heartbeat_interval_seconds (config_lines ls cur cfg) =
     (case assigned ''heartbeat'' ''interval_in_seconds'' ls cur None of
        None \<Rightarrow> heartbeat_interval_seconds cfg
      | Some v \<Rightarrow> atoi v)"
proof (induction ls arbitrary: cur cfg)
  case Nil
  show ?case by simp
next
  case (Cons l ls)
  show ?case
  proof (cases "classify_line l")
    case Skip
    with Cons.IH [of cur cfg] show ?thesis by simp
  next
    case (Section name)
    with Cons.IH [of "take 63 name" cfg] show ?thesis by simp
  next
    case (Assign k v)
    show ?thesis
    proof (cases "cur = ''heartbeat'' \<and> k = ''interval_in_seconds''")
      case True
      have e: "heartbeat_interval_seconds (config_set cur k v cfg) = atoi v"
        using True by (simp add: config_set_def)
      have a: "assigned ''heartbeat'' ''interval_in_seconds'' (l # ls) cur None
               = assigned ''heartbeat'' ''interval_in_seconds'' ls cur (Some v)"
        using Assign True by simp
      have f: "assigned ''heartbeat'' ''interval_in_seconds'' ls cur (Some v)
               = (case assigned ''heartbeat'' ''interval_in_seconds'' ls cur None of
                    None \<Rightarrow> Some v | Some w \<Rightarrow> Some w)"
        by (rule assigned_found)
      have "heartbeat_interval_seconds (config_lines (l # ls) cur cfg)
            = heartbeat_interval_seconds (config_lines ls cur (config_set cur k v cfg))"
        using Assign by simp
      also have "\<dots> = (case assigned ''heartbeat'' ''interval_in_seconds'' ls cur None of
                          None \<Rightarrow> heartbeat_interval_seconds (config_set cur k v cfg)
                        | Some a \<Rightarrow> atoi a)"
        by (rule Cons.IH)
      finally show ?thesis
        unfolding a f e by (simp split: option.splits)
    next
      case False
      have e: "heartbeat_interval_seconds (config_set cur k v cfg) = heartbeat_interval_seconds cfg"
        using False by (auto simp: config_set_def)
      have a: "assigned ''heartbeat'' ''interval_in_seconds'' (l # ls) cur None
               = assigned ''heartbeat'' ''interval_in_seconds'' ls cur None"
        using Assign False by auto
      have "heartbeat_interval_seconds (config_lines (l # ls) cur cfg)
            = heartbeat_interval_seconds (config_lines ls cur (config_set cur k v cfg))"
        using Assign by simp
      also have "\<dots> = (case assigned ''heartbeat'' ''interval_in_seconds'' ls cur None of
                          None \<Rightarrow> heartbeat_interval_seconds (config_set cur k v cfg)
                        | Some a \<Rightarrow> atoi a)"
        by (rule Cons.IH)
      finally show ?thesis by (simp only: e a)
    qed
  qed
qed

lemma config_parse_url:
  "controller_url (config_parse content) = file_value ''controller'' ''url'' content"
  by (simp add: config_parse_def file_value_def controller_url_assigned config_defaults_def)

lemma config_parse_token:
  "auth_token (config_parse content) = file_value ''controller'' ''auth_token'' content"
  by (simp add: config_parse_def file_value_def auth_token_assigned config_defaults_def)

lemma config_parse_interval:
  "heartbeat_interval_seconds (config_parse content) =
     (case file_value ''heartbeat'' ''interval_in_seconds'' content of None \<Rightarrow> 600 | Some v \<Rightarrow> atoi v)"
  by (simp add: config_parse_def file_value_def interval_assigned config_defaults_def
      split: option.splits)

lemma config_set_unrecognized:
  "\<not> recognized section key \<Longrightarrow> config_set section key val cfg = cfg"
  by (auto simp: recognized_def config_set_def)

lemma config_lines_append:
  "config_lines (pre @ post) cur cfg =
     config_lines post (section_after pre cur) (config_lines pre cur cfg)"
proof (induction pre arbitrary: cur cfg)
  case Nil
  show ?case by simp
next
  case (Cons l ls)
  show ?case
    by (cases "classify_line l") (simp_all add: Cons.IH)
qed

text \<open>
  When the lines that the loop receives give no value, or the empty value, to \<open>url\<close> or
  to \<open>auth_token\<close> of section \<open>controller\<close>, \<open>config_load\<close> returns \<open>ERR_CONFIG_INVALID\<close>
  and writes no configuration. The two fields of the parsed configuration hold exactly
  what these lines assign, \<open>None\<close> when they assign nothing: no default stands in for
  them.
\<close>

lemma required_keys_of_read_lines:
  assumes "fopen_r path = Some content"
    and "file_value ''controller'' ''url'' content = None
         \<or> file_value ''controller'' ''url'' content = Some []
         \<or> file_value ''controller'' ''auth_token'' content = None
         \<or> file_value ''controller'' ''auth_token'' content = Some []"
  shows "config_load fopen_r calloc_ok (Some path) True = (ERR_CONFIG_INVALID, None)
         \<and> controller_url (config_parse content) = file_value ''controller'' ''url'' content
         \<and> auth_token (config_parse content) = file_value ''controller'' ''auth_token'' content
         \<and> controller_url config_defaults = None \<and> auth_token config_defaults = None"
proof -
  have "config_validate (Some (config_parse content)) = ERR_CONFIG_INVALID"
    using assms(2) by (auto simp: config_validate_def config_parse_url config_parse_token)
  then have "config_load fopen_r calloc_ok (Some path) True = (ERR_CONFIG_INVALID, None)"
    using assms(1) by (simp add: config_load_def)
  then show ?thesis
    by (simp add: config_parse_url config_parse_token config_defaults_def)
qed

lemma required_keys_example:
  "file_value ''controller'' ''auth_token'' ''[controller]\<newline>url = https://c.test\<newline>'' = None
   \<and> config_load (\<lambda>p. Some ''[controller]\<newline>url = https://c.test\<newline>'') True
         (Some ''agent.conf'') True = (ERR_CONFIG_INVALID, None)"
proof -
  let ?content = "''[controller]\<newline>url = https://c.test\<newline>''"
  have b: "file_value ''controller'' ''auth_token'' ?content = None" by code_simp
  show ?thesis
    using required_keys_of_read_lines [of "\<lambda>p. Some ?content" "''agent.conf''" ?content True] b
    by simp
qed

lemma fgets_chunk_replicate:
  "c \<noteq> CHR 0x0A \<Longrightarrow> k \<le> n
     \<Longrightarrow> fgets_chunk n (replicate k c @ s)
         = (replicate k c @ fst (fgets_chunk (n - k) s), snd (fgets_chunk (n - k) s))"
proof (induction k arbitrary: n)
  case 0
  show ?case by simp
next
  case (Suc k)
  then have n: "n \<noteq> 0" and k: "k \<le> n - 1" by simp_all
  have "fgets_chunk (n - 1) (replicate k c @ s)
        = (replicate k c @ fst (fgets_chunk (n - 1 - k) s), snd (fgets_chunk (n - 1 - k) s))"
    by (rule Suc.IH [OF Suc.prems(1) k])
  then show ?case using n Suc.prems(1) by simp
qed

lemma lines_from_replicate:
  "c \<noteq> CHR 0x0A \<Longrightarrow> lines_from cur (replicate k c @ s) = lines_from (replicate k c @ cur) s"
proof (induction k arbitrary: cur)
  case 0
  show ?case by simp
next
  case (Suc k)
  have "lines_from cur (replicate (Suc k) c @ s) = lines_from (c # cur) (replicate k c @ s)"
    using Suc.prems by simp
  also have "\<dots> = lines_from (replicate k c @ c # cur) s"
    by (rule Suc.IH [OF Suc.prems])
  finally show ?case by (simp add: replicate_app_Cons_same)
qed

lemma classify_comment: "classify_line (CHR ''#'' # xs) = Skip"
  by (simp add: classify_line_def c_str_def trim_whitespace_def is_blank_def)

lemma long_comment_chunks:
  "fgets_lines long_comment_file
   = [''[controller]\<newline>'', ''auth_token = tok\<newline>'',
      CHR ''#'' # replicate 1022 CHR ''x'', ''url = https://c.test\<newline>'']"
proof -
  let ?t = "''url = https://c.test\<newline>''"
  have "fgets_chunk 1022 (replicate 1022 CHR ''x'' @ ?t)
        = (replicate 1022 CHR ''x'' @ fst (fgets_chunk (1022 - 1022) ?t),
           snd (fgets_chunk (1022 - 1022) ?t))"
    by (rule fgets_chunk_replicate) simp_all
  then have c: "fgets_chunk 1022 (replicate 1022 CHR ''x'' @ ?t) = (replicate 1022 CHR ''x'', ?t)"
    by simp
  show ?thesis by (simp add: long_comment_file_def c)
qed

lemma long_comment_lines:
  "text_lines long_comment_file
   = [''[controller]\<newline>'', ''auth_token = tok\<newline>'',
      CHR ''#'' # replicate 1022 CHR ''x'' @ ''url = https://c.test\<newline>'']"
proof -
  let ?t = "''url = https://c.test\<newline>''"
  have r: "lines_from [CHR ''#''] (replicate 1022 CHR ''x'' @ ?t)
           = lines_from (replicate 1022 CHR ''x'' @ [CHR ''#'']) ?t"
    by (rule lines_from_replicate) simp
  show ?thesis by (simp add: text_lines_def long_comment_file_def r)
qed

lemma classify_example_lines:
  "classify_line ''[controller]\<newline>'' = Section ''controller''"
  "classify_line ''auth_token = tok\<newline>'' = Assign ''auth_token'' ''tok''"
  "classify_line ''url = https://c.test\<newline>'' = Assign ''url'' ''https://c.test''"
  by code_simp+

text \<open>
  C1. A file can lack the \<open>url\<close> key and still be loaded. In \<open>long_comment_file\<close> the only
  text \<open>url = ...\<close> is the end of a comment line of more than 1023 bytes, so the file,
  read line by line, gives no value to \<open>url\<close> of section \<open>controller\<close>. \<^verbatim>\<open>fgets\<close> hands
  the end of that line to the loop as a line of its own, and \<open>config_load\<close> returns
  \<open>ERR_SUCCESS\<close> with a configuration whose controller URL is that text.
\<close>

theorem config_load_long_comment_line:
  "declared_value ''controller'' ''url'' long_comment_file = None
   \<and> config_load (\<lambda>p. Some long_comment_file) True (Some ''agent.conf'') True
       = (ERR_SUCCESS,
          Some (config_defaults\<lparr>controller_url := Some ''https://c.test'',
                                 auth_token := Some ''tok''\<rparr>))"
proof -
  have d: "declared_value ''controller'' ''url'' long_comment_file = None"
    by (simp add: declared_value_def long_comment_lines classify_example_lines classify_comment)
  have p: "config_parse long_comment_file
           = config_defaults\<lparr>controller_url := Some ''https://c.test'', auth_token := Some ''tok''\<rparr>"
    by (simp add: config_parse_def long_comment_chunks classify_example_lines classify_comment
        config_set_def config_defaults_def)
  have "config_load (\<lambda>p. Some long_comment_file) True (Some ''agent.conf'') True
        = (ERR_SUCCESS,
           Some (config_defaults\<lparr>controller_url := Some ''https://c.test'',
                                  auth_token := Some ''tok''\<rparr>))"
    by (simp add: config_load_def p config_validate_def config_defaults_def)
  then show ?thesis using d by simp
qed

text \<open>
  C2, as the specification states it, fails: a file whose \<open>controller\<close> section holds the
  unknown key \<open>bogus\<close> besides the two required keys is loaded with \<open>ERR_SUCCESS\<close>.
\<close>

theorem unknown_key_counterexample:
  "\<not> rejects_unknown_keys
       [''[controller]\<newline>'', ''url = https://c.test\<newline>'', ''auth_token = tok\<newline>'', ''bogus = 1\<newline>'']
   \<and> fst (config_load
        (\<lambda>p. Some ''[controller]\<newline>url = https://c.test\<newline>auth_token = tok\<newline>bogus = 1\<newline>'')
        True (Some ''agent.conf'') True) = ERR_SUCCESS"
proof -
  let ?ls = "[''[controller]\<newline>'', ''url = https://c.test\<newline>'', ''auth_token = tok\<newline>'', ''bogus = 1\<newline>'']"
  have c: "classify_line (?ls ! 3) = Assign ''bogus'' ''1''" by code_simp
  have s: "section_after (take 3 ?ls) [] = ''controller''" by code_simp
  have r: "\<not> recognized ''controller'' ''bogus''" by code_simp
  have v: "config_validate (Some (config_lines ?ls [] config_defaults)) = ERR_SUCCESS" by code_simp
  have "\<exists>i < length ?ls. \<exists>k v. classify_line (?ls ! i) = Assign k v
          \<and> \<not> recognized (section_after (take i ?ls) []) k"
  proof (intro exI conjI)
    show "3 < length ?ls" by simp
    show "classify_line (?ls ! 3) = Assign ''bogus'' ''1''" by (rule c)
    show "\<not> recognized (section_after (take 3 ?ls) []) ''bogus''" using r s by simp
  qed
  then have "\<not> rejects_unknown_keys ?ls"
    unfolding rejects_unknown_keys_def using v by simp
  moreover have "fst (config_load
        (\<lambda>p. Some ''[controller]\<newline>url = https://c.test\<newline>auth_token = tok\<newline>bogus = 1\<newline>'')
        True (Some ''agent.conf'') True) = ERR_SUCCESS" by code_simp
  ultimately show ?thesis by simp
qed

lemma fgets_chunk_within:
  "a \<noteq> [] \<Longrightarrow> last a = CHR 0x0A
     \<Longrightarrow> fgets_chunk n (a @ b) = (fst (fgets_chunk n a), snd (fgets_chunk n a) @ b)"
proof (induction n a rule: fgets_chunk.induct)
  case (1 n)
  then show ?case by simp
next
  case (2 n c cs)
  show ?case
  proof (cases "n = 0 \<or> c = CHR 0x0A")
    case True
    then show ?thesis by auto
  next
    case False
    then have cs: "cs \<noteq> []" "last cs = CHR 0x0A" using "2.prems" by (auto split: if_splits)
    have "fgets_chunk (n - 1) (cs @ b)
          = (fst (fgets_chunk (n - 1) cs), snd (fgets_chunk (n - 1) cs) @ b)"
      using "2.IH" False cs by simp
    then show ?thesis using False by (simp split: prod.splits)
  qed
qed

lemma fgets_chunk_rest_last:
  "a \<noteq> [] \<Longrightarrow> last a = CHR 0x0A
     \<Longrightarrow> snd (fgets_chunk n a) = [] \<or> last (snd (fgets_chunk n a)) = CHR 0x0A"
proof (induction n a rule: fgets_chunk.induct)
  case (1 n)
  then show ?case by simp
next
  case (2 n c cs)
  show ?case
  proof (cases "n = 0 \<or> c = CHR 0x0A")
    case True
    then show ?thesis using "2.prems" by (auto split: if_splits)
  next
    case False
    then have cs: "cs \<noteq> []" "last cs = CHR 0x0A" using "2.prems" by (auto split: if_splits)
    then show ?thesis using "2.IH" False by (auto split: prod.splits)
  qed
qed

lemma fgets_lines_append:
  "a = [] \<or> last a = CHR 0x0A \<Longrightarrow> fgets_lines (a @ b) = fgets_lines a @ fgets_lines b"
proof (induction a rule: fgets_lines.induct)
  case 1
  show ?case by simp
next
  case (2 c cs)
  let ?a = "c # cs"
  have l: "last ?a = CHR 0x0A" using "2.prems" by simp
  have w: "fgets_chunk 1023 (?a @ b) = (fst (fgets_chunk 1023 ?a), snd (fgets_chunk 1023 ?a) @ b)"
    by (rule fgets_chunk_within [OF _ l]) simp
  have r: "snd (fgets_chunk 1023 ?a) = [] \<or> last (snd (fgets_chunk 1023 ?a)) = CHR 0x0A"
    by (rule fgets_chunk_rest_last [OF _ l]) simp
  have ih: "fgets_lines (snd (fgets_chunk 1023 ?a) @ b)
            = fgets_lines (snd (fgets_chunk 1023 ?a)) @ fgets_lines b"
    by (rule "2.IH" [OF r])
  have "fgets_lines (?a @ b)
        = fst (fgets_chunk 1023 (?a @ b)) # fgets_lines (snd (fgets_chunk 1023 (?a @ b)))"
    by simp
  then show ?case using w ih by simp
qed

lemma fgets_chunk_line:
  "CHR 0x0A \<notin> set t \<Longrightarrow> length t < n \<Longrightarrow> fgets_chunk n (t @ [CHR 0x0A]) = (t @ [CHR 0x0A], [])"
proof (induction t arbitrary: n)
  case Nil
  then show ?case by simp
next
  case (Cons c t)
  then have "fgets_chunk (n - 1) (t @ [CHR 0x0A]) = (t @ [CHR 0x0A], [])" by simp
  then show ?case using Cons.prems by auto
qed

lemma fgets_lines_line:
  "CHR 0x0A \<notin> set t \<Longrightarrow> length t < 1023 \<Longrightarrow> fgets_lines (t @ [CHR 0x0A]) = [t @ [CHR 0x0A]]"
proof -
  assume a: "CHR 0x0A \<notin> set t" "length t < 1023"
  have c: "fgets_chunk 1023 (t @ [CHR 0x0A]) = (t @ [CHR 0x0A], [])"
    by (rule fgets_chunk_line [OF a])
  show ?thesis
  proof (cases t)
    case Nil
    then show ?thesis by simp
  next
    case (Cons x xs)
    then show ?thesis using c by simp
  qed
qed

lemma config_lines_skip_unknown:
  assumes "classify_line line = Assign key val" and "\<not> recognized (section_after pre cur) key"
  shows "config_lines (pre @ line # post) cur cfg = config_lines (pre @ post) cur cfg"
proof -
  have "config_lines (line # post) (section_after pre cur) (config_lines pre cur cfg)
        = config_lines post (section_after pre cur) (config_lines pre cur cfg)"
    using assms by (simp add: config_set_unrecognized)
  then show ?thesis
    using config_lines_append [of pre "line # post" cur cfg] config_lines_append [of pre post cur cfg]
    by simp
qed

text \<open>
  C2, amended. A line of at most 1023 bytes, newline included, that starts at the
  beginning of the file or after a newline and assigns a key outside the recognized set
  of the section that is current there, is ignored by \<open>config_load\<close>: for the file
  with the line the load returns what it returns for the file without it, the error code
  and the configuration alike.
\<close>

theorem unknown_key_ignored:
  assumes "before = [] \<or> last before = CHR 0x0A"
    and "CHR 0x0A \<notin> set t" and "length t < 1023"
    and "classify_line (t @ [CHR 0x0A]) = Assign key val"
    and "\<not> recognized (section_after (fgets_lines before) []) key"
    and "fopen_r path = Some (before @ t @ [CHR 0x0A] @ after)"
    and "fopen_r path' = Some (before @ after)"
  shows "config_load fopen_r calloc_ok (Some path) has_out
         = config_load fopen_r calloc_ok (Some path') has_out"
proof -
  let ?line = "t @ [CHR 0x0A]"
  have "fgets_lines (?line @ after) = fgets_lines ?line @ fgets_lines after"
    by (rule fgets_lines_append) simp
  then have "fgets_lines (before @ ?line @ after)
             = fgets_lines before @ ?line # fgets_lines after"
    using fgets_lines_append [OF assms(1), of "?line @ after"] fgets_lines_line [OF assms(2,3)]
    by simp
  moreover have "fgets_lines (before @ after) = fgets_lines before @ fgets_lines after"
    by (rule fgets_lines_append [OF assms(1)])
  ultimately have "config_parse (before @ ?line @ after) = config_parse (before @ after)"
    using config_lines_skip_unknown [OF assms(4,5)] by (simp add: config_parse_def)
  then show ?thesis using assms(6,7) by (simp add: config_load_def)
qed

theorem unknown_key_ignored_witness:
  "classify_line (''bogus = 1'' @ [CHR 0x0A]) = Assign ''bogus'' ''1''
   \<and> config_load
        (\<lambda>p. if p = ''agent.conf''
              then Some (''[controller]\<newline>url = https://c.test\<newline>'' @ ''bogus = 1'' @ [CHR 0x0A]
                         @ ''auth_token = tok\<newline>'')
              else Some (''[controller]\<newline>url = https://c.test\<newline>'' @ ''auth_token = tok\<newline>''))
        True (Some ''agent.conf'') True
     = config_load
        (\<lambda>p. if p = ''agent.conf''
              then Some (''[controller]\<newline>url = https://c.test\<newline>'' @ ''bogus = 1'' @ [CHR 0x0A]
                         @ ''auth_token = tok\<newline>'')
              else Some (''[controller]\<newline>url = https://c.test\<newline>'' @ ''auth_token = tok\<newline>''))
        True (Some ''plain.conf'') True"
proof -
  let ?b = "''[controller]\<newline>url = https://c.test\<newline>''"
  let ?a = "''auth_token = tok\<newline>''"
  let ?fs = "\<lambda>p. if p = ''agent.conf'' then Some (?b @ ''bogus = 1'' @ [CHR 0x0A] @ ?a)
                  else Some (?b @ ?a)"
  have 1: "?b = [] \<or> last ?b = CHR 0x0A" by simp
  have 2: "CHR 0x0A \<notin> set ''bogus = 1''" by simp
  have 3: "length ''bogus = 1'' < 1023" by simp
  have 4: "classify_line (''bogus = 1'' @ [CHR 0x0A]) = Assign ''bogus'' ''1''" by code_simp
  have 5: "\<not> recognized (section_after (fgets_lines ?b) []) ''bogus''" by code_simp
  have 6: "?fs ''agent.conf'' = Some (?b @ ''bogus = 1'' @ [CHR 0x0A] @ ?a)" by simp
  have 7: "?fs ''plain.conf'' = Some (?b @ ?a)" by simp
  show ?thesis
    using unknown_key_ignored [OF 1 2 3 4 5 6 7, of True True] 4 by simp
qed

text \<open>
  \<open>config_validate\<close> returns \<open>ERR_CONFIG_INVALID\<close> for every configuration whose
  heartbeat interval is below 60, and so does \<open>config_load\<close> for a file whose
  \<open>interval_in_seconds\<close> of section \<open>heartbeat\<close> is below 60 once \<^verbatim>\<open>atoi\<close> has converted
  it; with an interval of at least 60 (and the two required keys present) the validation
  succeeds.
\<close>

lemma validate_heartbeat_interval:
  "(heartbeat_interval_seconds c < 60 \<longrightarrow> config_validate (Some c) = ERR_CONFIG_INVALID)
   \<and> (60 \<le> heartbeat_interval_seconds c \<and> controller_url c = Some u \<and> u \<noteq> []
        \<and> auth_token c = Some t \<and> t \<noteq> [] \<longrightarrow> config_validate (Some c) = ERR_SUCCESS)
   \<and> (fopen_r path = Some content
        \<and> file_value ''heartbeat'' ''interval_in_seconds'' content = Some v \<and> atoi v < 60
        \<longrightarrow> config_load fopen_r calloc_ok (Some path) True = (ERR_CONFIG_INVALID, None))"
proof (intro conjI impI)
  assume "heartbeat_interval_seconds c < 60"
  then show "config_validate (Some c) = ERR_CONFIG_INVALID"
    by (simp add: config_validate_def)
next
  assume "60 \<le> heartbeat_interval_seconds c \<and> controller_url c = Some u \<and> u \<noteq> []
        \<and> auth_token c = Some t \<and> t \<noteq> []"
  then show "config_validate (Some c) = ERR_SUCCESS"
    by (simp add: config_validate_def)
next
  assume h: "fopen_r path = Some content
        \<and> file_value ''heartbeat'' ''interval_in_seconds'' content = Some v \<and> atoi v < 60"
  then have "heartbeat_interval_seconds (config_parse content) < 60"
    by (simp add: config_parse_interval)
  then have "config_validate (Some (config_parse content)) = ERR_CONFIG_INVALID"
    by (simp add: config_validate_def)
  then show "config_load fopen_r calloc_ok (Some path) True = (ERR_CONFIG_INVALID, None)"
    using h by (simp add: config_load_def)
qed

lemma validate_heartbeat_interval_example:
  "config_validate (Some (config_defaults\<lparr>controller_url := Some ''https://c.test'',
       auth_token := Some ''tok'', heartbeat_interval_seconds := 59\<rparr>)) = ERR_CONFIG_INVALID
   \<and> config_validate (Some (config_defaults\<lparr>controller_url := Some ''https://c.test'',
       auth_token := Some ''tok'', heartbeat_interval_seconds := 60\<rparr>)) = ERR_SUCCESS
   \<and> config_load
        (\<lambda>p. Some ''[controller]\<newline>url = https://c.test\<newline>auth_token = tok\<newline>[heartbeat]\<newline>interval_in_seconds = 30\<newline>'')
        True (Some ''agent.conf'') True = (ERR_CONFIG_INVALID, None)"
proof -
  let ?content = "''[controller]\<newline>url = https://c.test\<newline>auth_token = tok\<newline>[heartbeat]\<newline>interval_in_seconds = 30\<newline>''"
  let ?c = "config_defaults\<lparr>controller_url := Some ''https://c.test'', auth_token := Some ''tok''\<rparr>"
  have f: "file_value ''heartbeat'' ''interval_in_seconds'' ?content = Some ''30''" by code_simp
  have a: "atoi ''30'' < 60" by code_simp
  have 1: "config_validate (Some (?c\<lparr>heartbeat_interval_seconds := 59\<rparr>)) = ERR_CONFIG_INVALID"
    using validate_heartbeat_interval [of "?c\<lparr>heartbeat_interval_seconds := 59\<rparr>"]
    by simp
  have 2: "config_validate (Some (?c\<lparr>heartbeat_interval_seconds := 60\<rparr>)) = ERR_SUCCESS"
    using validate_heartbeat_interval
      [of "?c\<lparr>heartbeat_interval_seconds := 60\<rparr>" "''https://c.test''" "''tok''"]
    by simp
  have 3: "config_load (\<lambda>p. Some ?content) True (Some ''agent.conf'') True = (ERR_CONFIG_INVALID, None)"
    using validate_heartbeat_interval
      [of _ _ _ "\<lambda>p. Some ?content" "''agent.conf''" ?content "''30''" True] f a
    by simp
  show ?thesis using 1 2 3 by simp
qed

text \<open>
  C7. \<open>config_load\<close> reads the interval with \<^verbatim>\<open>atoi\<close>, which keeps the low 32 bits of a
  number outside the range of \<^verbatim>\<open>int\<close>. The file that sets \<open>interval_in_seconds\<close> to
  \<open>-4294967236\<close>, a value below 60, is loaded with \<open>ERR_SUCCESS\<close> and an interval of 60;
  the file that sets it to \<open>2147483708\<close>, a value above 60, is rejected.
\<close>

theorem config_load_interval_wraps:
  "strtol_value ''-4294967236'' = - 4294967236
   \<and> config_load (\<lambda>p. Some wrapping_interval_file) True (Some ''agent.conf'') True
       = (ERR_SUCCESS,
          Some (config_defaults\<lparr>controller_url := Some ''https://c.test'',
                                 auth_token := Some ''tok'',
                                 heartbeat_interval_seconds := 60\<rparr>))
   \<and> strtol_value ''2147483708'' = 2147483708
   \<and> config_load (\<lambda>p. Some large_interval_file) True (Some ''agent.conf'') True
       = (ERR_CONFIG_INVALID, None)"
  by code_simp

section \<open>Properties of the heartbeat and of the main loop\<close>

lemma extendsI: "trace w' = trace w @ evs \<Longrightarrow> list_all P evs \<Longrightarrow> extends P w w'"
  by (simp add: extends_def new_events_def)

lemma extends_refl: "extends P w w"
  by (simp add: extends_def new_events_def)

lemma extends_trans: "extends P w w1 \<Longrightarrow> extends P w1 w2 \<Longrightarrow> extends P w w2"
proof -
  assume a: "extends P w w1" and b: "extends P w1 w2"
  have "trace w2 = trace w @ (new_events w w1 @ new_events w1 w2)"
    using a b by (simp add: extends_def)
  moreover have "list_all P (new_events w w1 @ new_events w1 w2)"
    using a b by (simp add: extends_def)
  ultimately show ?thesis by (rule extendsI)
qed

lemma extends_emit: "P e \<Longrightarrow> extends P w (emit e w)"
  by (rule extendsI [where evs = "[e]"]) (simp_all add: emit_def)

lemma extends_mono: "extends P w w' \<Longrightarrow> (\<And>e. P e \<Longrightarrow> Q e) \<Longrightarrow> extends Q w w'"
  by (auto simp: extends_def list_all_iff)

lemma extends_time_now: "extends P w (snd (time_now w))"
  by (rule extendsI [where evs = "[]"]) (simp_all add: time_now_def)

lemma extends_jitter: "extends P w (snd (utils_get_random_jitter_ms m w))"
  by (rule extendsI [where evs = "[]"]) (simp_all add: utils_get_random_jitter_ms_def time_now_def)

lemma extends_curl: "P request \<Longrightarrow> extends P w (snd (curl_transfer request w))"
proof -
  assume p: "P request"
  let ?w1 = "w\<lparr>net_calls := Suc (net_calls w)\<rparr>"
  have a: "extends P w ?w1" by (rule extendsI [where evs = "[]"]) simp_all
  have b: "extends P ?w1 (emit request ?w1)" using p by (rule extends_emit)
  show ?thesis
    using a extends_trans [OF a b] by (simp add: curl_transfer_def Let_def)
qed

lemma extends_http_post:
  "(\<And>u. url = Some u \<Longrightarrow> P (HttpPost u)) \<Longrightarrow> extends P w (snd (snd (http_post url tok b w)))"
proof (cases url)
  case None
  then show ?thesis by (simp add: http_post_def extends_refl)
next
  case (Some u)
  assume "\<And>u. url = Some u \<Longrightarrow> P (HttpPost u)"
  then have p: "P (HttpPost u)" using Some by simp
  have "extends P w (snd (curl_transfer (HttpPost u) w))" using p by (rule extends_curl)
  then show ?thesis
    using Some by (auto simp: http_post_def extends_refl split: prod.splits http_outcome.splits)
qed

lemma heartbeat_send_extends:
  "extends (heartbeat_event (controller_url (config ctx))) w (snd (snd (snd (heartbeat_send ctx w))))"
proof -
  let ?P = "heartbeat_event (controller_url (config ctx))"
  let ?w = "emit HeartbeatSend w"
  have a: "extends ?P w ?w" by (rule extends_emit) simp
  show ?thesis
  proof (cases "utils_build_url (controller_url (config ctx)) (Some ''/api/v1/agents/heartbeat'')")
    case None
    then show ?thesis using a by (simp add: heartbeat_send_def)
  next
    case (Some url)
    let ?r = "http_post (Some url) (auth_token (config ctx)) (Some []) ?w"
    have b: "extends ?P ?w (snd (snd ?r))"
      by (rule extends_http_post) (simp add: Some)
    have c: "extends ?P w (snd (snd ?r))" by (rule extends_trans [OF a b])
    have d: "extends ?P w (snd (time_now (snd (snd ?r))))"
      by (rule extends_trans [OF c extends_time_now])
    show ?thesis
      using Some c d
      by (auto simp: heartbeat_send_def Let_def split: prod.splits option.splits)
  qed
qed

lemma heartbeat_send_config: "config (fst (snd (snd (heartbeat_send ctx w)))) = config ctx"
  by (auto simp: heartbeat_send_def Let_def split: prod.splits option.splits)

lemma heartbeat_send_authorized:
  "heartbeat_send ctx w = (ERR_SUCCESS, response, ctx1, w1)
     \<Longrightarrow> \<exists>r. response = Some r \<and> authorized ctx1 = hb_authorized r"
  by (auto simp: heartbeat_send_def Let_def split: prod.splits option.splits if_splits)

lemma sends_emit: "sends (emit e w) = sends w + (if e = HeartbeatSend then 1 else 0)"
  by (simp add: sends_def emit_def)

lemma sends_sleep: "sends (utils_sleep n w) = sends w"
  by (simp add: utils_sleep_def sends_emit)

lemma sends_jitter: "sends (snd (utils_get_random_jitter_ms m w)) = sends w"
  by (simp add: utils_get_random_jitter_ms_def time_now_def sends_def)

lemma sends_heartbeat_send: "sends (snd (snd (snd (heartbeat_send ctx w)))) = Suc (sends w)"
  by (auto simp: heartbeat_send_def http_post_def curl_transfer_def emit_def time_now_def
      sends_def Let_def split: prod.splits option.splits http_outcome.splits)

lemma extends_sleep: "P (Sleep n) \<Longrightarrow> extends P w (utils_sleep n w)"
  by (simp add: utils_sleep_def extends_emit)

lemma retry_loop_done:
  "\<not> a \<le> m \<Longrightarrow> retry_loop m d j a ctx w
     = (ERR_NETWORK_UNREACHABLE, None, ctx\<lparr>retry_count := retry_count ctx + 1\<rparr>, w)"
  by (subst retry_loop.simps) simp

lemma retry_loop_success:
  "a \<le> m \<Longrightarrow> heartbeat_send ctx w = (ERR_SUCCESS, response, ctx1, w1)
     \<Longrightarrow> retry_loop m d j a ctx w = (ERR_SUCCESS, response, ctx1\<lparr>retry_count := 0\<rparr>, w1)"
  by (subst retry_loop.simps) simp

lemma retry_loop_auth_failed:
  "a \<le> m \<Longrightarrow> heartbeat_send ctx w = (ERR_AUTH_FAILED, response, ctx1, w1)
     \<Longrightarrow> retry_loop m d j a ctx w = (ERR_AUTH_FAILED, response, ctx1, w1)"
  by (subst retry_loop.simps) simp

lemma retry_loop_retry:
  "a < m \<Longrightarrow> heartbeat_send ctx w = (result, response, ctx1, w1)
     \<Longrightarrow> result \<noteq> ERR_SUCCESS \<Longrightarrow> result \<noteq> ERR_AUTH_FAILED
     \<Longrightarrow> utils_get_random_jitter_ms j w1 = (jitter_ms, w2)
     \<Longrightarrow> retry_loop m d j a ctx w
         = retry_loop m d j (a + 1) ctx1
             (if jitter_ms > 0
              then utils_sleep (jitter_ms div 1000) (utils_sleep (int_mul d (int_shl 1 (a - 1))) w2)
              else utils_sleep (int_mul d (int_shl 1 (a - 1))) w2)"
  by (subst retry_loop.simps) (simp add: Let_def)

lemma retry_loop_last:
  "a = m \<Longrightarrow> heartbeat_send ctx w = (result, response, ctx1, w1)
     \<Longrightarrow> result \<noteq> ERR_SUCCESS \<Longrightarrow> result \<noteq> ERR_AUTH_FAILED
     \<Longrightarrow> retry_loop m d j a ctx w = retry_loop m d j (a + 1) ctx1 w1"
  by (subst retry_loop.simps) simp

lemma retry_loop_props:
  "extends (heartbeat_event (controller_url (config ctx))) w
       (snd (snd (snd (retry_loop m d j a ctx w))))
   \<and> config (fst (snd (snd (retry_loop m d j a ctx w)))) = config ctx
   \<and> sends (snd (snd (snd (retry_loop m d j a ctx w)))) \<le> sends w + nat (m + 1 - a)"
proof (induction "nat (m + 1 - a)" arbitrary: a ctx w)
  case 0
  then have "\<not> a \<le> m" by simp
  then show ?case by (simp add: retry_loop_done extends_refl)
next
  case (Suc k)
  let ?P = "heartbeat_event (controller_url (config ctx))"
  have le: "a \<le> m" using Suc.hyps(2) by simp
  obtain result response ctx1 w1 where hs: "heartbeat_send ctx w = (result, response, ctx1, w1)"
    by (cases "heartbeat_send ctx w") auto
  have e1: "extends ?P w w1" using heartbeat_send_extends [of ctx w] hs by simp
  have c1: "config ctx1 = config ctx" using heartbeat_send_config [of ctx w] hs by simp
  have s1: "sends w1 = Suc (sends w)" using sends_heartbeat_send [of ctx w] hs by simp
  have k: "k = nat (m + 1 - (a + 1))" using Suc.hyps(2) by simp
  have pos: "0 < nat (m + 1 - a)" using le by simp
  have n: "nat (m + 1 - a) = Suc (nat (m - a))" using le by arith
  consider (ok) "result = ERR_SUCCESS" | (auth) "result = ERR_AUTH_FAILED"
    | (retry) "result \<noteq> ERR_SUCCESS" "result \<noteq> ERR_AUTH_FAILED" "a < m"
    | (last) "result \<noteq> ERR_SUCCESS" "result \<noteq> ERR_AUTH_FAILED" "a = m"
    using le by fastforce
  then show ?case
  proof cases
    case ok
    have "retry_loop m d j a ctx w = (ERR_SUCCESS, response, ctx1\<lparr>retry_count := 0\<rparr>, w1)"
      using le hs ok by (simp add: retry_loop_success)
    then show ?thesis using e1 c1 s1 pos by simp
  next
    case auth
    have "retry_loop m d j a ctx w = (ERR_AUTH_FAILED, response, ctx1, w1)"
      using le hs auth by (simp add: retry_loop_auth_failed)
    then show ?thesis using e1 c1 s1 pos by simp
  next
    case retry
    obtain jitter_ms w2 where jm: "utils_get_random_jitter_ms j w1 = (jitter_ms, w2)"
      by (cases "utils_get_random_jitter_ms j w1") auto
    define w3 where "w3 = utils_sleep (int_mul d (int_shl 1 (a - 1))) w2"
    define w4 where "w4 = (if jitter_ms > 0 then utils_sleep (jitter_ms div 1000) w3 else w3)"
    have e2: "extends ?P w1 w2" using extends_jitter [of ?P w1 j] jm by simp
    have e3: "extends ?P w2 w3" unfolding w3_def by (rule extends_sleep) simp
    have e4: "extends ?P w3 w4" unfolding w4_def by (simp add: extends_refl extends_sleep)
    have e: "extends ?P w w4"
      by (rule extends_trans [OF extends_trans [OF extends_trans [OF e1 e2] e3] e4])
    have s: "sends w4 = Suc (sends w)"
      using s1 sends_jitter [of j w1] jm by (simp add: w4_def w3_def sends_sleep)
    have step: "retry_loop m d j a ctx w = retry_loop m d j (a + 1) ctx1 w4"
      unfolding w4_def w3_def by (rule retry_loop_retry [OF retry(3) hs retry(1) retry(2) jm])
    have ih: "extends (heartbeat_event (controller_url (config ctx1))) w4
                (snd (snd (snd (retry_loop m d j (a + 1) ctx1 w4))))
              \<and> config (fst (snd (snd (retry_loop m d j (a + 1) ctx1 w4)))) = config ctx1
              \<and> sends (snd (snd (snd (retry_loop m d j (a + 1) ctx1 w4))))
                  \<le> sends w4 + nat (m + 1 - (a + 1))"
      by (rule Suc.hyps(1) [OF k])
    have x: "extends ?P w4 (snd (snd (snd (retry_loop m d j (a + 1) ctx1 w4))))"
      using ih c1 by simp
    have "extends ?P w (snd (snd (snd (retry_loop m d j (a + 1) ctx1 w4))))"
      by (rule extends_trans [OF e x])
    then show ?thesis
      unfolding step using ih c1 s n by simp
  next
    case last
    have step: "retry_loop m d j a ctx w = retry_loop m d j (a + 1) ctx1 w1"
      by (rule retry_loop_last [OF last(3) hs last(1) last(2)])
    have ih: "extends (heartbeat_event (controller_url (config ctx1))) w1
                (snd (snd (snd (retry_loop m d j (a + 1) ctx1 w1))))
              \<and> config (fst (snd (snd (retry_loop m d j (a + 1) ctx1 w1)))) = config ctx1
              \<and> sends (snd (snd (snd (retry_loop m d j (a + 1) ctx1 w1))))
                  \<le> sends w1 + nat (m + 1 - (a + 1))"
      by (rule Suc.hyps(1) [OF k])
    have x: "extends ?P w1 (snd (snd (snd (retry_loop m d j (a + 1) ctx1 w1))))"
      using ih c1 by simp
    have "extends ?P w (snd (snd (snd (retry_loop m d j (a + 1) ctx1 w1))))"
      by (rule extends_trans [OF e1 x])
    then show ?thesis
      unfolding step using ih c1 s1 n by simp
  qed
qed

lemma retry_loop_authorized:
  "retry_loop m d j a ctx w = (ERR_SUCCESS, response, ctx', w')
     \<Longrightarrow> a \<le> m \<and> (\<exists>r. response = Some r \<and> authorized ctx' = hb_authorized r)"
proof (induction "nat (m + 1 - a)" arbitrary: a ctx w)
  case 0
  then have "\<not> a \<le> m" by simp
  then show ?case using "0.prems" by (simp add: retry_loop_done)
next
  case (Suc k)
  have le: "a \<le> m" using Suc.hyps(2) by simp
  have k: "k = nat (m + 1 - (a + 1))" using Suc.hyps(2) by simp
  obtain result resp1 ctx1 w1 where hs: "heartbeat_send ctx w = (result, resp1, ctx1, w1)"
    by (cases "heartbeat_send ctx w") auto
  show ?case
  proof (cases "result = ERR_SUCCESS")
    case True
    have "retry_loop m d j a ctx w = (ERR_SUCCESS, resp1, ctx1\<lparr>retry_count := 0\<rparr>, w1)"
      using hs le True by (simp add: retry_loop_success)
    then have "response = resp1" and "ctx' = ctx1\<lparr>retry_count := 0\<rparr>"
      using Suc.prems by simp_all
    then show ?thesis
      using heartbeat_send_authorized [of ctx w resp1 ctx1 w1] hs True le by auto
  next
    case False
    show ?thesis
    proof (cases "result = ERR_AUTH_FAILED")
      case True
      have "retry_loop m d j a ctx w = (ERR_AUTH_FAILED, resp1, ctx1, w1)"
        using hs le True by (simp add: retry_loop_auth_failed)
      then show ?thesis using Suc.prems by simp
    next
      case naf: False
      have "\<exists>ctx2 w2. retry_loop m d j a ctx w = retry_loop m d j (a + 1) ctx2 w2"
      proof (cases "a < m")
        case True
        obtain jitter_ms w2 where jm: "utils_get_random_jitter_ms j w1 = (jitter_ms, w2)"
          by (cases "utils_get_random_jitter_ms j w1") auto
        show ?thesis
          using retry_loop_retry [OF True hs False naf jm, of d] by blast
      next
        case nlt: False
        then have am: "a = m" using le by simp
        show ?thesis
          using retry_loop_last [OF am hs False naf, of d j] by blast
      qed
      then obtain ctx2 w2 where step: "retry_loop m d j a ctx w = retry_loop m d j (a + 1) ctx2 w2"
        by blast
      have "retry_loop m d j (a + 1) ctx2 w2 = (ERR_SUCCESS, response, ctx', w')"
        using Suc.prems step by simp
      then have "\<exists>r. response = Some r \<and> authorized ctx' = hb_authorized r"
        using Suc.hyps(1) [OF k] by blast
      then show ?thesis using le by simp
    qed
  qed
qed


lemma job_poll_result:
  "fst (snd (job_poll ctx w)) = None
   \<or> fst (snd (job_poll ctx w)) = Some \<lparr>jobs = None, job_count = 0\<rparr>"
  by (auto simp: job_poll_def Let_def split: option.splits prod.splits http_outcome.splits)

lemma job_poll_success:
  "fst (job_poll ctx w) = ERR_SUCCESS
     \<Longrightarrow> fst (snd (job_poll ctx w)) = Some \<lparr>jobs = None, job_count = 0\<rparr>"
  by (auto simp: job_poll_def Let_def split: option.splits prod.splits http_outcome.splits if_splits)

lemma job_poll_extends:
  "extends (agent_event (controller_url (config ctx))) w (snd (snd (job_poll ctx w)))"
proof -
  let ?P = "agent_event (controller_url (config ctx))"
  let ?w = "emit JobPoll w"
  have a: "extends ?P w ?w" by (rule extends_emit) simp
  show ?thesis
  proof (cases "utils_build_url (controller_url (config ctx)) (Some ''/api/v1/agents/jobs'')")
    case None
    then show ?thesis using a by (simp add: job_poll_def)
  next
    case (Some url)
    have b: "extends ?P ?w (snd (curl_transfer (HttpGet url) ?w))"
      by (rule extends_curl) (simp add: Some)
    have c: "extends ?P w (snd (curl_transfer (HttpGet url) ?w))"
      by (rule extends_trans [OF a b])
    show ?thesis
      using Some c
      by (auto simp: job_poll_def Let_def split: prod.splits http_outcome.splits)
  qed
qed

lemma heartbeat_event_agent: "heartbeat_event base e \<Longrightarrow> agent_event base e"
  by (cases e) simp_all

lemma heartbeat_send_with_retry_props:
  "extends (heartbeat_event (controller_url (config ctx))) w
       (snd (snd (snd (heartbeat_send_with_retry ctx w))))
   \<and> config (fst (snd (snd (heartbeat_send_with_retry ctx w)))) = config ctx
   \<and> sends (snd (snd (snd (heartbeat_send_with_retry ctx w))))
        \<le> sends w + nat (retry_attempts (config ctx))"
  using retry_loop_props [of ctx w "retry_attempts (config ctx)" "retry_delay_seconds (config ctx)"
      "int_mul (max_jitter_seconds (config ctx)) 1000" 1]
  by (simp add: heartbeat_send_with_retry_def)

lemma agent_iteration_after_heartbeat:
  "extends (agent_event (controller_url (config ctx)))
       (snd (snd (snd (heartbeat_send_with_retry ctx w)))) (snd (agent_iteration ctx w))
   \<and> config (fst (agent_iteration ctx w)) = config ctx"
proof -
  let ?P = "agent_event (controller_url (config ctx))"
  obtain hb_result hb_response ctx1 w1
    where hb: "heartbeat_send_with_retry ctx w = (hb_result, hb_response, ctx1, w1)"
    by (cases "heartbeat_send_with_retry ctx w") auto
  have c1: "config ctx1 = config ctx"
    using heartbeat_send_with_retry_props [of ctx w] hb by simp
  have sl: "\<And>v. extends ?P v (utils_sleep (heartbeat_interval_seconds (config ctx)) v)"
    by (rule extends_sleep) simp
  show ?thesis
  proof (cases "hb_result \<noteq> ERR_SUCCESS \<or> \<not> authorized ctx1")
    case True
    then show ?thesis
      using hb c1 sl [of w1] by (auto simp: agent_iteration_def)
  next
    case False
    define ctx2 where "ctx2 = (if state ctx1 \<noteq> AGENT_STATE_ACTIVE
                               then ctx1\<lparr>state := AGENT_STATE_ACTIVE\<rparr> else ctx1)"
    have c2: "config ctx2 = config ctx" using c1 by (simp add: ctx2_def)
    obtain job_result polled w2 where jp: "job_poll ctx2 w1 = (job_result, polled, w2)"
      by (cases "job_poll ctx2 w1") auto
    have e2: "extends ?P w1 w2" using job_poll_extends [of ctx2 w1] jp c2 by simp
    have pr: "polled = None \<or> polled = Some \<lparr>jobs = None, job_count = 0\<rparr>"
      using job_poll_result [of ctx2 w1] jp by simp
    have it: "agent_iteration ctx w
              = (ctx2, utils_sleep (heartbeat_interval_seconds (config ctx)) w2)"
      using hb False jp pr c2 by (auto simp: agent_iteration_def ctx2_def Let_def)
    show ?thesis
      using it hb c2 extends_trans [OF e2 sl [of w2]] by simp
  qed
qed

lemma agent_iteration_extends:
  "extends (agent_event (controller_url (config ctx))) w (snd (agent_iteration ctx w))"
proof -
  let ?P = "agent_event (controller_url (config ctx))"
  have "extends (heartbeat_event (controller_url (config ctx))) w
          (snd (snd (snd (heartbeat_send_with_retry ctx w))))"
    using heartbeat_send_with_retry_props [of ctx w] by simp
  then have a: "extends ?P w (snd (snd (snd (heartbeat_send_with_retry ctx w))))"
    by (rule extends_mono) (rule heartbeat_event_agent)
  have b: "extends ?P (snd (snd (snd (heartbeat_send_with_retry ctx w)))) (snd (agent_iteration ctx w))"
    using agent_iteration_after_heartbeat [of ctx w] by simp
  show ?thesis by (rule extends_trans [OF a b])
qed

lemma agent_run_props:
  "extends (agent_event (controller_url (config ctx))) w (snd (agent_run n ctx w))
   \<and> config (fst (agent_run n ctx w)) = config ctx"
proof (induction n arbitrary: ctx w)
  case 0
  show ?case by (simp add: extends_refl)
next
  case (Suc n)
  obtain ctx1 w1 where it: "agent_iteration ctx w = (ctx1, w1)"
    by (cases "agent_iteration ctx w") auto
  have c1: "config ctx1 = config ctx"
    using agent_iteration_after_heartbeat [of ctx w] it by simp
  have e1: "extends (agent_event (controller_url (config ctx))) w w1"
    using agent_iteration_extends [of ctx w] it by simp
  have e2: "extends (agent_event (controller_url (config ctx))) w1 (snd (agent_run n ctx1 w1))"
    using Suc.IH [of ctx1 w1] c1 by simp
  show ?case
    using it extends_trans [OF e1 e2] Suc.IH [of ctx1 w1] c1 by simp
qed

lemma new_events_eq: "trace w' = trace w @ es \<Longrightarrow> new_events w w' = es"
  by (simp add: new_events_def)

lemma heartbeat_send_first_event:
  "\<exists>evs. trace (snd (snd (snd (heartbeat_send ctx w)))) = trace w @ HeartbeatSend # evs"
  by (auto simp: heartbeat_send_def http_post_def curl_transfer_def emit_def time_now_def
      Let_def split: prod.splits option.splits http_outcome.splits)

lemma retry_loop_first_event:
  assumes "a \<le> m"
  shows "\<exists>evs. trace (snd (snd (snd (retry_loop m d j a ctx w)))) = trace w @ HeartbeatSend # evs"
proof -
  obtain result response ctx1 w1 where hs: "heartbeat_send ctx w = (result, response, ctx1, w1)"
    by (cases "heartbeat_send ctx w") auto
  obtain evs where t1: "trace w1 = trace w @ HeartbeatSend # evs"
    using heartbeat_send_first_event [of ctx w] hs by auto
  have later: "\<And>v c. extends (heartbeat_event (controller_url (config c))) w1 v \<Longrightarrow>
                 extends (heartbeat_event (controller_url (config c))) v
                    (snd (snd (snd (retry_loop m d j (a + 1) c v))))
                 \<Longrightarrow> \<exists>es. trace (snd (snd (snd (retry_loop m d j (a + 1) c v))))
                           = trace w @ HeartbeatSend # es"
  proof -
    fix v c
    assume "extends (heartbeat_event (controller_url (config c))) w1 v"
      and "extends (heartbeat_event (controller_url (config c))) v
             (snd (snd (snd (retry_loop m d j (a + 1) c v))))"
    then have "extends (heartbeat_event (controller_url (config c))) w1
             (snd (snd (snd (retry_loop m d j (a + 1) c v))))"
      by (rule extends_trans)
    then have "trace (snd (snd (snd (retry_loop m d j (a + 1) c v))))
               = trace w1 @ new_events w1 (snd (snd (snd (retry_loop m d j (a + 1) c v))))"
      by (simp add: extends_def)
    then show "\<exists>es. trace (snd (snd (snd (retry_loop m d j (a + 1) c v))))
                           = trace w @ HeartbeatSend # es"
      using t1 by simp
  qed
  consider (ok) "result = ERR_SUCCESS" | (auth) "result = ERR_AUTH_FAILED"
    | (retry) "result \<noteq> ERR_SUCCESS" "result \<noteq> ERR_AUTH_FAILED" "a < m"
    | (last) "result \<noteq> ERR_SUCCESS" "result \<noteq> ERR_AUTH_FAILED" "a = m"
    using assms by fastforce
  then show ?thesis
  proof cases
    case ok
    then show ?thesis using assms hs t1 by (simp add: retry_loop_success)
  next
    case auth
    then show ?thesis using assms hs t1 by (simp add: retry_loop_auth_failed)
  next
    case retry
    let ?P = "heartbeat_event (controller_url (config ctx1))"
    obtain jitter_ms w2 where jm: "utils_get_random_jitter_ms j w1 = (jitter_ms, w2)"
      by (cases "utils_get_random_jitter_ms j w1") auto
    define w3 where "w3 = utils_sleep (int_mul d (int_shl 1 (a - 1))) w2"
    define w4 where "w4 = (if jitter_ms > 0 then utils_sleep (jitter_ms div 1000) w3 else w3)"
    have e2: "extends ?P w1 w2" using extends_jitter [of ?P w1 j] jm by simp
    have e3: "extends ?P w2 w3" unfolding w3_def by (rule extends_sleep) simp
    have e4: "extends ?P w3 w4" unfolding w4_def by (simp add: extends_refl extends_sleep)
    have e: "extends ?P w1 w4" by (rule extends_trans [OF extends_trans [OF e2 e3] e4])
    have step: "retry_loop m d j a ctx w = retry_loop m d j (a + 1) ctx1 w4"
      unfolding w4_def w3_def by (rule retry_loop_retry [OF retry(3) hs retry(1) retry(2) jm])
    have x: "extends ?P w4 (snd (snd (snd (retry_loop m d j (a + 1) ctx1 w4))))"
      using retry_loop_props [of ctx1 w4 m d j "a + 1"] by simp
    show ?thesis unfolding step by (rule later [OF e x])
  next
    case last
    let ?P = "heartbeat_event (controller_url (config ctx1))"
    have step: "retry_loop m d j a ctx w = retry_loop m d j (a + 1) ctx1 w1"
      by (rule retry_loop_last [OF last(3) hs last(1) last(2)])
    have x: "extends ?P w1 (snd (snd (snd (retry_loop m d j (a + 1) ctx1 w1))))"
      using retry_loop_props [of ctx1 w1 m d j "a + 1"] by simp
    show ?thesis unfolding step by (rule later [OF extends_refl x])
  qed
qed

lemma agent_iteration_first_event:
  assumes "1 \<le> retry_attempts (config ctx)"
  shows "\<exists>rest. new_events w (snd (agent_iteration ctx w)) = HeartbeatSend # rest"
proof -
  let ?w1 = "snd (snd (snd (heartbeat_send_with_retry ctx w)))"
  obtain evs where t: "trace ?w1 = trace w @ HeartbeatSend # evs"
    using retry_loop_first_event [OF assms, of "retry_delay_seconds (config ctx)"
        "int_mul (max_jitter_seconds (config ctx)) 1000" ctx w]
    by (auto simp: heartbeat_send_with_retry_def)
  have "extends (agent_event (controller_url (config ctx))) ?w1 (snd (agent_iteration ctx w))"
    using agent_iteration_after_heartbeat [of ctx w] by simp
  then have "trace (snd (agent_iteration ctx w))
             = trace ?w1 @ new_events ?w1 (snd (agent_iteration ctx w))"
    by (simp add: extends_def)
  then have "trace (snd (agent_iteration ctx w))
             = trace w @ HeartbeatSend # (evs @ new_events ?w1 (snd (agent_iteration ctx w)))"
    using t by simp
  then have "new_events w (snd (agent_iteration ctx w))
             = HeartbeatSend # (evs @ new_events ?w1 (snd (agent_iteration ctx w)))"
    by (rule new_events_eq)
  then show ?thesis by blast
qed

lemma heartbeat_success:
  assumes "fst (heartbeat_send_with_retry ctx w) = ERR_SUCCESS"
  shows "1 \<le> retry_attempts (config ctx)
         \<and> (\<exists>r. fst (snd (heartbeat_send_with_retry ctx w)) = Some r
                \<and> authorized (fst (snd (snd (heartbeat_send_with_retry ctx w)))) = hb_authorized r)"
proof -
  obtain response ctx1 w1
    where hb: "heartbeat_send_with_retry ctx w = (ERR_SUCCESS, response, ctx1, w1)"
    using assms by (cases "heartbeat_send_with_retry ctx w") auto
  then have "retry_loop (retry_attempts (config ctx)) (retry_delay_seconds (config ctx))
               (int_mul (max_jitter_seconds (config ctx)) 1000) 1 ctx w
             = (ERR_SUCCESS, response, ctx1, w1)"
    by (simp add: heartbeat_send_with_retry_def)
  then show ?thesis using retry_loop_authorized hb by fastforce
qed

text \<open>
  C4. In a pass of the main loop whose heartbeat succeeds with a response that reports
  \<open>authorized\<close> false, the agent neither calls \<open>job_poll\<close> nor sends any GET request: after
  the heartbeat it only sleeps for the heartbeat interval, its state is
  \<open>AGENT_STATE_UNAUTHORIZED\<close>, and the next pass starts with \<open>heartbeat_send\<close> again.
\<close>

theorem unauthorized_agent_never_polls:
  assumes "fst (heartbeat_send_with_retry ctx w) = ERR_SUCCESS"
    and "fst (snd (heartbeat_send_with_retry ctx w)) = Some r"
    and "\<not> hb_authorized r"
  shows "new_events (snd (snd (snd (heartbeat_send_with_retry ctx w)))) (snd (agent_iteration ctx w))
           = [Sleep (heartbeat_interval_seconds (config ctx))]
         \<and> JobPoll \<notin> set (new_events w (snd (agent_iteration ctx w)))
         \<and> HttpGet u \<notin> set (new_events w (snd (agent_iteration ctx w)))
         \<and> state (fst (agent_iteration ctx w)) = AGENT_STATE_UNAUTHORIZED
         \<and> (\<exists>rest. new_events (snd (agent_iteration ctx w))
                      (snd (agent_iteration (fst (agent_iteration ctx w)) (snd (agent_iteration ctx w))))
                    = HeartbeatSend # rest)"
proof -
  let ?P = "heartbeat_event (controller_url (config ctx))"
  obtain hb_result hb_response ctx1 w1
    where hb: "heartbeat_send_with_retry ctx w = (hb_result, hb_response, ctx1, w1)"
    by (cases "heartbeat_send_with_retry ctx w") auto
  have ok: "hb_result = ERR_SUCCESS" using assms(1) hb by simp
  have s: "1 \<le> retry_attempts (config ctx)" and un: "\<not> authorized ctx1"
    using heartbeat_success [OF assms(1)] assms(2,3) hb by auto
  have p: "extends ?P w w1" and c1: "config ctx1 = config ctx"
    using heartbeat_send_with_retry_props [of ctx w] hb by simp_all
  let ?w2 = "utils_sleep (heartbeat_interval_seconds (config ctx)) w1"
  have it: "agent_iteration ctx w = (ctx1\<lparr>state := AGENT_STATE_UNAUTHORIZED\<rparr>, ?w2)"
    using hb ok un c1 by (simp add: agent_iteration_def)
  have n1: "new_events w1 ?w2 = [Sleep (heartbeat_interval_seconds (config ctx))]"
    by (simp add: new_events_def utils_sleep_def emit_def)
  have e2: "extends ?P w1 ?w2" by (rule extends_sleep) simp
  have "extends ?P w ?w2" by (rule extends_trans [OF p e2])
  then have all: "list_all ?P (new_events w ?w2)" by (simp add: extends_def)
  have a: "JobPoll \<notin> set (new_events w ?w2)"
  proof
    assume "JobPoll \<in> set (new_events w ?w2)"
    then have "?P JobPoll" using all by (auto simp: list_all_iff)
    then show False by simp
  qed
  have b: "HttpGet u \<notin> set (new_events w ?w2)"
  proof
    assume "HttpGet u \<in> set (new_events w ?w2)"
    then have "?P (HttpGet u)" using all by (auto simp: list_all_iff)
    then show False by simp
  qed
  have "1 \<le> retry_attempts (config (ctx1\<lparr>state := AGENT_STATE_UNAUTHORIZED\<rparr>))"
    using s c1 by simp
  then have "\<exists>rest. new_events ?w2
                 (snd (agent_iteration (ctx1\<lparr>state := AGENT_STATE_UNAUTHORIZED\<rparr>) ?w2))
               = HeartbeatSend # rest"
    by (rule agent_iteration_first_event)
  then show ?thesis using it hb n1 a b by simp
qed

text \<open>Evaluating the heartbeat and the poll in the example environments.\<close>

lemma retry_first_success:
  assumes "1 \<le> retry_attempts (config ctx)" and "fst (heartbeat_send ctx w) = ERR_SUCCESS"
  shows "fst (heartbeat_send_with_retry ctx w) = ERR_SUCCESS
         \<and> fst (snd (heartbeat_send_with_retry ctx w)) = fst (snd (heartbeat_send ctx w))"
proof -
  obtain response ctx1 w1 where hs: "heartbeat_send ctx w = (ERR_SUCCESS, response, ctx1, w1)"
    using assms(2) by (cases "heartbeat_send ctx w") auto
  show ?thesis
    using retry_loop_success [OF assms(1) hs] hs by (simp add: heartbeat_send_with_retry_def)
qed

lemma heartbeat_send_ok:
  assumes "utils_build_url (controller_url (config ctx)) (Some ''/api/v1/agents/heartbeat'') = Some url"
    and "net w (net_calls w) = Response 200 b"
  shows "fst (heartbeat_send ctx w) = ERR_SUCCESS
         \<and> fst (snd (heartbeat_send ctx w)) = Some (parse_heartbeat_response (c_str b))"
  using assms
  by (simp add: heartbeat_send_def http_post_def curl_transfer_def emit_def time_now_def Let_def)

lemma example_heartbeat_url:
  "utils_build_url (controller_url (config example_ctx)) (Some ''/api/v1/agents/heartbeat'')
   = Some ''https://c.test/api/v1/agents/heartbeat''"
  by (simp add: example_ctx_def example_config_def utils_build_url_def)

lemma example_attempts: "1 \<le> retry_attempts (config example_ctx)"
  by (simp add: example_ctx_def example_config_def config_defaults_def)

lemma parse_unauthorized:
  "parse_heartbeat_response (c_str (heartbeat_body ''false'' ''false''))
   = \<lparr>hb_accepted = True, hb_config_updated = False,
      hb_next_heartbeat_in_seconds = 600, hb_authorized = False\<rparr>"
  by code_simp

lemma parse_updated:
  "hb_config_updated (parse_heartbeat_response (c_str (heartbeat_body ''true'' ''true'')))"
  by code_simp

lemma unauthorized_world_first:
  "net unauthorized_world (net_calls unauthorized_world)
   = Response 200 (heartbeat_body ''false'' ''false'')"
  by (simp add: unauthorized_world_def example_world_def)

lemma update_world_first:
  "net update_world (net_calls update_world) = Response 200 (heartbeat_body ''true'' ''true'')"
  by (simp add: update_world_def example_world_def)

lemma listing_world_first:
  "net listing_world (net_calls listing_world) = Response 200 jobs_body"
  by (simp add: listing_world_def example_world_def)

lemma job_poll_ok:
  assumes "utils_build_url (controller_url (config ctx)) (Some ''/api/v1/agents/jobs'') = Some url"
    and "net (emit JobPoll w) (net_calls (emit JobPoll w)) = Response 200 b"
  shows "fst (job_poll ctx w) = ERR_SUCCESS"
  using assms by (simp add: job_poll_def curl_transfer_def Let_def)

theorem unauthorized_agent_never_polls_witness:
  "fst (heartbeat_send_with_retry example_ctx unauthorized_world) = ERR_SUCCESS
   \<and> new_events (snd (snd (snd (heartbeat_send_with_retry example_ctx unauthorized_world))))
        (snd (agent_iteration example_ctx unauthorized_world)) = [Sleep 600]
   \<and> JobPoll \<notin> set (new_events unauthorized_world
                       (snd (agent_iteration example_ctx unauthorized_world)))"
proof -
  let ?r = "\<lparr>hb_accepted = True, hb_config_updated = False,
             hb_next_heartbeat_in_seconds = 600, hb_authorized = False\<rparr>"
  have s: "fst (heartbeat_send example_ctx unauthorized_world) = ERR_SUCCESS
           \<and> fst (snd (heartbeat_send example_ctx unauthorized_world)) = Some ?r"
    using heartbeat_send_ok [OF example_heartbeat_url unauthorized_world_first]
    by (simp add: parse_unauthorized)
  have a: "fst (heartbeat_send_with_retry example_ctx unauthorized_world) = ERR_SUCCESS"
    and b: "fst (snd (heartbeat_send_with_retry example_ctx unauthorized_world)) = Some ?r"
    using retry_first_success [OF example_attempts, of unauthorized_world] s by simp_all
  have c: "\<not> hb_authorized ?r" by simp
  have d: "heartbeat_interval_seconds (config example_ctx) = 600"
    by (simp add: example_ctx_def example_config_def config_defaults_def)
  show ?thesis
    using unauthorized_agent_never_polls [OF a b c] a d by simp
qed

text \<open>
  C9. Whenever \<open>job_poll\<close> returns \<open>ERR_SUCCESS\<close> the list it hands out has
  \<open>job_count = 0\<close> and \<open>jobs = NULL\<close>, whatever the body of the response. So no number of
  passes of the main loop ever calls \<open>job_execute\<close> or \<open>job_submit_results\<close>.
\<close>

theorem job_poll_never_yields_jobs:
  "(fst (job_poll ctx w) = ERR_SUCCESS
      \<longrightarrow> fst (snd (job_poll ctx w)) = Some \<lparr>jobs = None, job_count = 0\<rparr>)
   \<and> JobExecute j \<notin> set (new_events w (snd (agent_run n ctx w)))
   \<and> JobSubmitResults j \<notin> set (new_events w (snd (agent_run n ctx w)))"
proof -
  let ?P = "agent_event (controller_url (config ctx))"
  have "extends ?P w (snd (agent_run n ctx w))"
    using agent_run_props [of ctx w n] by simp
  then have all: "list_all ?P (new_events w (snd (agent_run n ctx w)))"
    by (simp add: extends_def)
  have a: "JobExecute j \<notin> set (new_events w (snd (agent_run n ctx w)))"
  proof
    assume "JobExecute j \<in> set (new_events w (snd (agent_run n ctx w)))"
    then have "?P (JobExecute j)" using all by (auto simp: list_all_iff)
    then show False by simp
  qed
  have b: "JobSubmitResults j \<notin> set (new_events w (snd (agent_run n ctx w)))"
  proof
    assume "JobSubmitResults j \<in> set (new_events w (snd (agent_run n ctx w)))"
    then have "?P (JobSubmitResults j)" using all by (auto simp: list_all_iff)
    then show False by simp
  qed
  show ?thesis using a b job_poll_success [of ctx w] by simp
qed

theorem job_poll_never_yields_jobs_witness:
  "fst (job_poll example_ctx listing_world) = ERR_SUCCESS
   \<and> fst (snd (job_poll example_ctx listing_world)) = Some \<lparr>jobs = None, job_count = 0\<rparr>
   \<and> JobExecute (Some ''J1'')
       \<notin> set (new_events update_world (snd (agent_run 2 example_ctx update_world)))"
proof -
  have u: "utils_build_url (controller_url (config example_ctx)) (Some ''/api/v1/agents/jobs'')
           = Some ''https://c.test/api/v1/agents/jobs''"
    by (simp add: example_ctx_def example_config_def utils_build_url_def)
  have n: "net (emit JobPoll listing_world) (net_calls (emit JobPoll listing_world))
           = Response 200 jobs_body"
    using listing_world_first by (simp add: emit_def)
  have a: "fst (job_poll example_ctx listing_world) = ERR_SUCCESS"
    by (rule job_poll_ok [OF u n])
  show ?thesis
    using job_poll_never_yields_jobs [of example_ctx listing_world]
      job_poll_never_yields_jobs [of example_ctx update_world "Some ''J1''" 2] a
    by simp
qed

lemma agent_run_no_config_get:
  assumes "utils_build_url (controller_url (config ctx)) (Some ''/api/v1/agents/config'') = Some u"
  shows "HttpGet u \<notin> set (new_events w (snd (agent_run n ctx w)))"
proof
  let ?P = "agent_event (controller_url (config ctx))"
  have "extends ?P w (snd (agent_run n ctx w))"
    using agent_run_props [of ctx w n] by simp
  then have all: "list_all ?P (new_events w (snd (agent_run n ctx w)))"
    by (simp add: extends_def)
  assume "HttpGet u \<in> set (new_events w (snd (agent_run n ctx w)))"
  then have "?P (HttpGet u)" using all by (auto simp: list_all_iff)
  then have "utils_build_url (controller_url (config ctx)) (Some ''/api/v1/agents/jobs'') = Some u"
    by simp
  then show False
    using assms by (auto simp: utils_build_url_def split: option.splits)
qed

lemma example_config_url:
  "utils_build_url (controller_url (config example_ctx)) (Some ''/api/v1/agents/config'')
   = Some ''https://c.test/api/v1/agents/config''"
  by (simp add: example_ctx_def example_config_def utils_build_url_def)

text \<open>
  C3, as the specification states it, fails: the first heartbeat of the example run
  reports \<open>config_updated\<close> true, and three passes of the main loop later the agent has
  sent no \<^verbatim>\<open>GET /api/v1/agents/config\<close>.
\<close>

theorem config_update_counterexample:
  "hb_config_updated (parse_heartbeat_response (c_str (heartbeat_body ''true'' ''true'')))
   \<and> \<not> config_pull_follows example_ctx update_world 3"
proof -
  let ?r = "parse_heartbeat_response (c_str (heartbeat_body ''true'' ''true''))"
  have s: "fst (heartbeat_send example_ctx update_world) = ERR_SUCCESS
           \<and> fst (snd (heartbeat_send example_ctx update_world)) = Some ?r"
    by (rule heartbeat_send_ok [OF example_heartbeat_url update_world_first])
  have b: "fst (snd (heartbeat_send_with_retry example_ctx update_world)) = Some ?r"
    using retry_first_success [OF example_attempts, of update_world] s by simp
  have g: "HttpGet ''https://c.test/api/v1/agents/config''
           \<notin> set (new_events update_world (snd (agent_run 3 example_ctx update_world)))"
    by (rule agent_run_no_config_get [OF example_config_url])
  show ?thesis
    using b g parse_updated example_config_url by (simp add: config_pull_follows_def)
qed

lemma same_reply_refl: "same_reply x x"
  by (cases x) (simp_all add: same_reply_def)

lemma same_emit: "same_but_flag w w' \<Longrightarrow> same_but_flag (emit e w) (emit e w')"
  by (simp add: same_but_flag_def emit_def)

lemma same_sleep: "same_but_flag w w' \<Longrightarrow> same_but_flag (utils_sleep n w) (utils_sleep n w')"
  by (simp add: utils_sleep_def same_emit)

lemma same_time_now:
  "same_but_flag w w'
     \<Longrightarrow> fst (time_now w) = fst (time_now w') \<and> same_but_flag (snd (time_now w)) (snd (time_now w'))"
  by (simp add: same_but_flag_def time_now_def)

lemma same_jitter:
  "same_but_flag w w'
     \<Longrightarrow> fst (utils_get_random_jitter_ms j w) = fst (utils_get_random_jitter_ms j w')
         \<and> same_but_flag (snd (utils_get_random_jitter_ms j w)) (snd (utils_get_random_jitter_ms j w'))"
  by (simp add: same_but_flag_def utils_get_random_jitter_ms_def time_now_def)

lemma same_curl:
  "same_but_flag w w'
     \<Longrightarrow> same_reply (fst (curl_transfer r w)) (fst (curl_transfer r w'))
         \<and> same_but_flag (snd (curl_transfer r w)) (snd (curl_transfer r w'))"
proof -
  assume s: "same_but_flag w w'"
  then have n: "net_calls w = net_calls w'" and r: "same_reply (net w (net_calls w)) (net w' (net_calls w))"
    by (simp_all add: same_but_flag_def)
  have i: "net w (net_calls w) = CurlInitFailed \<longleftrightarrow> net w' (net_calls w) = CurlInitFailed"
    using r by (auto simp: same_reply_def split: http_outcome.splits)
  have b: "same_but_flag (w\<lparr>net_calls := Suc (net_calls w)\<rparr>) (w'\<lparr>net_calls := Suc (net_calls w')\<rparr>)"
    using s by (simp add: same_but_flag_def)
  show ?thesis
    using n r i b same_emit [OF b, of r] by (simp add: curl_transfer_def Let_def)
qed

lemma same_heartbeat_send:
  assumes "same_but_flag w w'"
  shows "fst (heartbeat_send ctx w) = fst (heartbeat_send ctx w')
         \<and> fst (snd (snd (heartbeat_send ctx w))) = fst (snd (snd (heartbeat_send ctx w')))
         \<and> same_but_flag (snd (snd (snd (heartbeat_send ctx w)))) (snd (snd (snd (heartbeat_send ctx w'))))"
proof (cases "utils_build_url (controller_url (config ctx)) (Some ''/api/v1/agents/heartbeat'')")
  case None
  then show ?thesis using same_emit [OF assms, of HeartbeatSend] by (simp add: heartbeat_send_def)
next
  case (Some url)
  let ?v = "emit HeartbeatSend w" and ?v' = "emit HeartbeatSend w'"
  have e: "same_but_flag ?v ?v'" by (rule same_emit [OF assms])
  obtain x v1 where c: "curl_transfer (HttpPost url) ?v = (x, v1)"
    by (cases "curl_transfer (HttpPost url) ?v") auto
  obtain y v1' where c': "curl_transfer (HttpPost url) ?v' = (y, v1')"
    by (cases "curl_transfer (HttpPost url) ?v'") auto
  have r: "same_reply x y" and s1: "same_but_flag v1 v1'"
    using same_curl [OF e, of "HttpPost url"] c c' by simp_all
  have t: "fst (time_now v1) = fst (time_now v1')"
    and s2: "same_but_flag (snd (time_now v1)) (snd (time_now v1'))"
    using same_time_now [OF s1] by simp_all
  show ?thesis
  proof (cases x)
    case CurlInitFailed
    then have "y = CurlInitFailed" using r by (simp add: same_reply_def)
    then show ?thesis
      using CurlInitFailed Some c c' s1 by (simp add: heartbeat_send_def http_post_def)
  next
    case PerformFailed
    then have "y = PerformFailed" using r by (simp add: same_reply_def)
    then show ?thesis
      using PerformFailed Some c c' s1 by (simp add: heartbeat_send_def http_post_def)
  next
    case (Response st b)
    then obtain b' where y: "y = Response st b'"
      and p: "(parse_heartbeat_response (c_str b))\<lparr>hb_config_updated := False\<rparr>
              = (parse_heartbeat_response (c_str b'))\<lparr>hb_config_updated := False\<rparr>"
      using r by (auto simp: same_reply_def split: http_outcome.splits)
    have "hb_authorized ((parse_heartbeat_response (c_str b))\<lparr>hb_config_updated := False\<rparr>)
          = hb_authorized ((parse_heartbeat_response (c_str b'))\<lparr>hb_config_updated := False\<rparr>)"
      using p by simp
    then have a: "hb_authorized (parse_heartbeat_response (c_str b))
                  = hb_authorized (parse_heartbeat_response (c_str b'))"
      by simp
    show ?thesis
      using Response y Some c c' s1 s2 t a
      by (simp add: heartbeat_send_def http_post_def Let_def case_prod_beta)
  qed
qed

lemma same_retry_loop:
  "same_but_flag w w'
     \<Longrightarrow> fst (retry_loop m d j a ctx w) = fst (retry_loop m d j a ctx w')
         \<and> fst (snd (snd (retry_loop m d j a ctx w))) = fst (snd (snd (retry_loop m d j a ctx w')))
         \<and> same_but_flag (snd (snd (snd (retry_loop m d j a ctx w))))
              (snd (snd (snd (retry_loop m d j a ctx w'))))"
proof (induction "nat (m + 1 - a)" arbitrary: a ctx w w')
  case 0
  then have "\<not> a \<le> m" by simp
  then show ?case using "0.prems" by (simp add: retry_loop_done)
next
  case (Suc k)
  have le: "a \<le> m" using Suc.hyps(2) by simp
  have k: "k = nat (m + 1 - (a + 1))" using Suc.hyps(2) by simp
  obtain result response ctx1 w1 where hs: "heartbeat_send ctx w = (result, response, ctx1, w1)"
    by (cases "heartbeat_send ctx w") auto
  obtain result' response' ctx1' w1' where hs': "heartbeat_send ctx w' = (result', response', ctx1', w1')"
    by (cases "heartbeat_send ctx w'") auto
  have eq: "result' = result" "ctx1' = ctx1" and s1: "same_but_flag w1 w1'"
    using same_heartbeat_send [OF Suc.prems, of ctx] hs hs' by simp_all
  consider (ok) "result = ERR_SUCCESS" | (auth) "result = ERR_AUTH_FAILED"
    | (retry) "result \<noteq> ERR_SUCCESS" "result \<noteq> ERR_AUTH_FAILED" "a < m"
    | (last) "result \<noteq> ERR_SUCCESS" "result \<noteq> ERR_AUTH_FAILED" "a = m"
    using le by fastforce
  then show ?case
  proof cases
    case ok
    then show ?thesis
      using retry_loop_success [OF le, of ctx w response ctx1 w1 d j]
        retry_loop_success [OF le, of ctx w' response' ctx1 w1' d j] hs hs' eq s1
      by simp
  next
    case auth
    then show ?thesis
      using retry_loop_auth_failed [OF le, of ctx w response ctx1 w1 d j]
        retry_loop_auth_failed [OF le, of ctx w' response' ctx1 w1' d j] hs hs' eq s1
      by simp
  next
    case retry
    obtain jitter_ms w2 where jm: "utils_get_random_jitter_ms j w1 = (jitter_ms, w2)"
      by (cases "utils_get_random_jitter_ms j w1") auto
    obtain jitter_ms' w2' where jm': "utils_get_random_jitter_ms j w1' = (jitter_ms', w2')"
      by (cases "utils_get_random_jitter_ms j w1'") auto
    have je: "jitter_ms' = jitter_ms" and s2: "same_but_flag w2 w2'"
      using same_jitter [OF s1, of j] jm jm' by simp_all
    define w4 where "w4 = (if jitter_ms > 0
        then utils_sleep (jitter_ms div 1000) (utils_sleep (int_mul d (int_shl 1 (a - 1))) w2)
        else utils_sleep (int_mul d (int_shl 1 (a - 1))) w2)"
    define w4' where "w4' = (if jitter_ms > 0
        then utils_sleep (jitter_ms div 1000) (utils_sleep (int_mul d (int_shl 1 (a - 1))) w2')
        else utils_sleep (int_mul d (int_shl 1 (a - 1))) w2')"
    have s4: "same_but_flag w4 w4'" using s2 by (simp add: w4_def w4'_def same_sleep)
    have step: "retry_loop m d j a ctx w = retry_loop m d j (a + 1) ctx1 w4"
      unfolding w4_def by (rule retry_loop_retry [OF retry(3) hs retry(1) retry(2) jm])
    have step': "retry_loop m d j a ctx w' = retry_loop m d j (a + 1) ctx1 w4'"
      unfolding w4'_def
      using retry_loop_retry [OF retry(3) hs' _ _ jm', of d] retry(1,2) eq je by simp
    show ?thesis unfolding step step' by (rule Suc.hyps(1) [OF k s4])
  next
    case last
    have step: "retry_loop m d j a ctx w = retry_loop m d j (a + 1) ctx1 w1"
      by (rule retry_loop_last [OF last(3) hs last(1) last(2)])
    have step': "retry_loop m d j a ctx w' = retry_loop m d j (a + 1) ctx1 w1'"
      using retry_loop_last [OF last(3) hs', of d j] last(1,2) eq by simp
    show ?thesis unfolding step step' by (rule Suc.hyps(1) [OF k s1])
  qed
qed

lemma same_job_poll:
  assumes "same_but_flag w w'"
  shows "fst (job_poll ctx w) = fst (job_poll ctx w')
         \<and> fst (snd (job_poll ctx w)) = fst (snd (job_poll ctx w'))
         \<and> same_but_flag (snd (snd (job_poll ctx w))) (snd (snd (job_poll ctx w')))"
proof (cases "utils_build_url (controller_url (config ctx)) (Some ''/api/v1/agents/jobs'')")
  case None
  then show ?thesis using same_emit [OF assms, of JobPoll] by (simp add: job_poll_def)
next
  case (Some url)
  let ?v = "emit JobPoll w" and ?v' = "emit JobPoll w'"
  have e: "same_but_flag ?v ?v'" by (rule same_emit [OF assms])
  obtain x v1 where c: "curl_transfer (HttpGet url) ?v = (x, v1)"
    by (cases "curl_transfer (HttpGet url) ?v") auto
  obtain y v1' where c': "curl_transfer (HttpGet url) ?v' = (y, v1')"
    by (cases "curl_transfer (HttpGet url) ?v'") auto
  have r: "same_reply x y" and s1: "same_but_flag v1 v1'"
    using same_curl [OF e, of "HttpGet url"] c c' by simp_all
  show ?thesis
  proof (cases x)
    case CurlInitFailed
    then have "y = CurlInitFailed" using r by (simp add: same_reply_def)
    then show ?thesis using CurlInitFailed Some c c' s1 by (simp add: job_poll_def)
  next
    case PerformFailed
    then have "y = PerformFailed" using r by (simp add: same_reply_def)
    then show ?thesis using PerformFailed Some c c' s1 by (simp add: job_poll_def)
  next
    case (Response st b)
    then obtain b' where y: "y = Response st b'"
      using r by (auto simp: same_reply_def split: http_outcome.splits)
    show ?thesis using Response y Some c c' s1 by (simp add: job_poll_def)
  qed
qed

lemma agent_iteration_unfold:
  "agent_iteration ctx w =
     (case heartbeat_send_with_retry ctx w of
        (hb_result, hb_response, ctx1, w1) \<Rightarrow>
          if hb_result \<noteq> ERR_SUCCESS
          then (ctx1, utils_sleep (heartbeat_interval_seconds (config ctx1)) w1)
          else if \<not> authorized ctx1
          then (ctx1\<lparr>state := AGENT_STATE_UNAUTHORIZED\<rparr>,
                utils_sleep (heartbeat_interval_seconds (config ctx1)) w1)
          else (let ctx2 = (if state ctx1 \<noteq> AGENT_STATE_ACTIVE
                            then ctx1\<lparr>state := AGENT_STATE_ACTIVE\<rparr> else ctx1)
                in (ctx2, utils_sleep (heartbeat_interval_seconds (config ctx2))
                            (snd (snd (job_poll ctx2 w1))))))"
proof -
  have "(case fst (snd (job_poll c v)) of
                  None \<Rightarrow> snd (snd (job_poll c v))
                | Some jl \<Rightarrow>
                    if fst (job_poll c v) = ERR_SUCCESS
                    then (if job_count jl > 0 then job_loop c (listed_jobs jl) (snd (snd (job_poll c v)))
                          else snd (snd (job_poll c v)))
                    else snd (snd (job_poll c v)))
                = snd (snd (job_poll c v))" for c v
    using job_poll_result [of c v] by (auto split: option.splits)
  then show ?thesis
    by (simp add: agent_iteration_def Let_def case_prod_beta)
qed

lemma same_agent_iteration:
  assumes "same_but_flag w w'"
  shows "fst (agent_iteration ctx w) = fst (agent_iteration ctx w')
         \<and> same_but_flag (snd (agent_iteration ctx w)) (snd (agent_iteration ctx w'))"
proof -
  obtain r p c1 w1 where h: "heartbeat_send_with_retry ctx w = (r, p, c1, w1)"
    by (cases "heartbeat_send_with_retry ctx w") auto
  obtain r' p' c1' w1' where h': "heartbeat_send_with_retry ctx w' = (r', p', c1', w1')"
    by (cases "heartbeat_send_with_retry ctx w'") auto
  have eq: "r' = r" "c1' = c1" and s1: "same_but_flag w1 w1'"
    using same_retry_loop [OF assms, of "retry_attempts (config ctx)"
        "retry_delay_seconds (config ctx)" "int_mul (max_jitter_seconds (config ctx)) 1000" 1 ctx] h h'
    by (simp_all add: heartbeat_send_with_retry_def)
  have sl: "\<And>n. same_but_flag (utils_sleep n w1) (utils_sleep n w1')"
    by (rule same_sleep [OF s1])
  have jp: "\<And>c. same_but_flag (snd (snd (job_poll c w1))) (snd (snd (job_poll c w1')))"
    using same_job_poll [OF s1] by simp
  have sj: "\<And>n c. same_but_flag (utils_sleep n (snd (snd (job_poll c w1))))
                      (utils_sleep n (snd (snd (job_poll c w1'))))"
    by (rule same_sleep [OF jp])
  show ?thesis
    unfolding agent_iteration_unfold h h' eq using sl sj by (simp add: Let_def)
qed

lemma same_agent_run:
  "same_but_flag w w'
     \<Longrightarrow> fst (agent_run n ctx w) = fst (agent_run n ctx w')
         \<and> same_but_flag (snd (agent_run n ctx w)) (snd (agent_run n ctx w'))"
proof (induction n arbitrary: ctx w w')
  case 0
  then show ?case by simp
next
  case (Suc n)
  obtain c1 w1 where i: "agent_iteration ctx w = (c1, w1)" by (cases "agent_iteration ctx w") auto
  obtain c1' w1' where i': "agent_iteration ctx w' = (c1', w1')" by (cases "agent_iteration ctx w'") auto
  have "c1' = c1" and s: "same_but_flag w1 w1'"
    using same_agent_iteration [OF Suc.prems, of ctx] i i' by simp_all
  then show ?case using i i' Suc.IH [OF s, of c1] by simp
qed

lemma parse_flag_only:
  "(parse_heartbeat_response (c_str (heartbeat_body ''true'' ''true'')))\<lparr>hb_config_updated := False\<rparr>
   = (parse_heartbeat_response (c_str (heartbeat_body ''false'' ''true'')))\<lparr>hb_config_updated := False\<rparr>"
  by code_simp

lemma update_quiet: "same_but_flag update_world quiet_world"
proof -
  have "same_reply (net update_world n) (net quiet_world n)" for n
  proof (cases n)
    case 0
    then show ?thesis
      by (simp add: update_world_def quiet_world_def example_world_def same_reply_def
          parse_flag_only)
  next
    case (Suc m)
    then show ?thesis
      by (cases m) (simp_all add: update_world_def quiet_world_def example_world_def same_reply_refl)
  qed
  then show ?thesis
    by (simp add: same_but_flag_def update_world_def quiet_world_def example_world_def)
qed

text \<open>
  C3, amended. \<open>heartbeat_send\<close> parses \<open>config_updated\<close> from the body of a 200 answer
  and returns it in the response, and nothing the agent does depends on it: two runs of
  the main loop in environments that differ at most in the \<open>config_updated\<close> of the
  controller's answers end, after any number of passes, in the same agent context and
  the same trace of calls, requests and sleeps. In every run the configuration of the
  agent stays the one loaded at start-up and the agent sends no
  \<^verbatim>\<open>GET /api/v1/agents/config\<close>.
\<close>

theorem agent_run_never_pulls_config:
  "(utils_build_url (controller_url (config ctx)) (Some ''/api/v1/agents/heartbeat'') = Some hu
      \<and> net w (net_calls w) = Response 200 b
      \<longrightarrow> fst (snd (heartbeat_send ctx w)) = Some (parse_heartbeat_response (c_str b))
          \<and> hb_config_updated (parse_heartbeat_response (c_str b))
              = (case http_parse_json_bool (c_str b) ''config_updated'' of
                   None \<Rightarrow> False | Some v \<Rightarrow> v))
   \<and> (same_but_flag w w'
      \<longrightarrow> fst (agent_run n ctx w) = fst (agent_run n ctx w')
          \<and> trace (snd (agent_run n ctx w)) = trace (snd (agent_run n ctx w')))
   \<and> config (fst (agent_run n ctx w)) = config ctx
   \<and> (utils_build_url (controller_url (config ctx)) (Some ''/api/v1/agents/config'') = Some u
        \<longrightarrow> HttpGet u \<notin> set (new_events w (snd (agent_run n ctx w))))"
proof -
  have p: "utils_build_url (controller_url (config ctx)) (Some ''/api/v1/agents/heartbeat'') = Some hu
      \<and> net w (net_calls w) = Response 200 b
      \<longrightarrow> fst (snd (heartbeat_send ctx w)) = Some (parse_heartbeat_response (c_str b))
          \<and> hb_config_updated (parse_heartbeat_response (c_str b))
              = (case http_parse_json_bool (c_str b) ''config_updated'' of
                   None \<Rightarrow> False | Some v \<Rightarrow> v)"
    using heartbeat_send_ok [of ctx hu w b] by (simp add: parse_heartbeat_response_def)
  have s: "same_but_flag w w'
      \<longrightarrow> fst (agent_run n ctx w) = fst (agent_run n ctx w')
          \<and> trace (snd (agent_run n ctx w)) = trace (snd (agent_run n ctx w'))"
    using same_agent_run [of w w' n ctx] by (simp add: same_but_flag_def)
  have c: "config (fst (agent_run n ctx w)) = config ctx"
    using agent_run_props [of ctx w n] by simp
  have g: "utils_build_url (controller_url (config ctx)) (Some ''/api/v1/agents/config'') = Some u
        \<longrightarrow> HttpGet u \<notin> set (new_events w (snd (agent_run n ctx w)))"
    using agent_run_no_config_get [of ctx u w n] by simp
  show ?thesis by (rule conjI [OF p conjI [OF s conjI [OF c g]]])
qed

theorem agent_run_never_pulls_config_witness:
  "fst (snd (heartbeat_send example_ctx update_world))
     = Some (parse_heartbeat_response (c_str (heartbeat_body ''true'' ''true'')))
   \<and> hb_config_updated (parse_heartbeat_response (c_str (heartbeat_body ''true'' ''true'')))
   \<and> \<not> hb_config_updated (parse_heartbeat_response (c_str (heartbeat_body ''false'' ''true'')))
   \<and> fst (agent_run 3 example_ctx update_world) = fst (agent_run 3 example_ctx quiet_world)
   \<and> trace (snd (agent_run 3 example_ctx update_world))
       = trace (snd (agent_run 3 example_ctx quiet_world))
   \<and> config (fst (agent_run 3 example_ctx update_world)) = example_config
   \<and> HttpGet ''https://c.test/api/v1/agents/config''
       \<notin> set (new_events update_world (snd (agent_run 3 example_ctx update_world)))"
proof -
  have c: "config example_ctx = example_config" by (simp add: example_ctx_def)
  have q: "\<not> hb_config_updated (parse_heartbeat_response (c_str (heartbeat_body ''false'' ''true'')))"
    by code_simp
  note run = agent_run_never_pulls_config
      [of example_ctx "''https://c.test/api/v1/agents/heartbeat''" update_world
          "heartbeat_body ''true'' ''true''" quiet_world 3
          "''https://c.test/api/v1/agents/config''"]
  have p: "fst (snd (heartbeat_send example_ctx update_world))
           = Some (parse_heartbeat_response (c_str (heartbeat_body ''true'' ''true'')))"
    using conjunct1 [OF run] example_heartbeat_url update_world_first by simp
  have s: "fst (agent_run 3 example_ctx update_world) = fst (agent_run 3 example_ctx quiet_world)
           \<and> trace (snd (agent_run 3 example_ctx update_world))
               = trace (snd (agent_run 3 example_ctx quiet_world))"
    using conjunct1 [OF conjunct2 [OF run]] update_quiet by simp
  have k: "config (fst (agent_run 3 example_ctx update_world)) = example_config"
    using conjunct1 [OF conjunct2 [OF conjunct2 [OF run]]] c by simp
  have g: "HttpGet ''https://c.test/api/v1/agents/config''
           \<notin> set (new_events update_world (snd (agent_run 3 example_ctx update_world)))"
    using conjunct2 [OF conjunct2 [OF conjunct2 [OF run]]] example_config_url by simp
  show ?thesis using p parse_updated q s k g by blast
qed













lemma job_execute_extends:
  "P (JobExecute (job_id j)) \<Longrightarrow> extends P w (snd (snd (job_execute ctx j w)))"
proof -
  assume p: "P (JobExecute (job_id j))"
  let ?w = "emit (JobExecute (job_id j)) w"
  have a: "extends P w ?w" using p by (rule extends_emit)
  have b: "extends P ?w (snd (snd (job_execute ctx j w)))"
    by (rule extendsI [where evs = "[]"]) (simp_all add: job_execute_def time_now_def Let_def)
  show ?thesis by (rule extends_trans [OF a b])
qed

lemma job_submit_results_extends:
  assumes "P (JobSubmitResults jid)"
    and "\<And>t u. jid = Some t \<Longrightarrow> utils_build_url (controller_url (config ctx)) (Some (results_path t)) = Some u
            \<Longrightarrow> P (HttpPost u)"
  shows "extends P w (snd (job_submit_results ctx jid sid results_json w))"
proof -
  let ?w = "emit (JobSubmitResults jid) w"
  have a: "extends P w ?w" using assms(1) by (rule extends_emit)
  show ?thesis
  proof (cases jid)
    case None
    then show ?thesis using a by (simp add: job_submit_results_def)
  next
    case (Some t)
    show ?thesis
    proof (cases "utils_build_url (controller_url (config ctx)) (Some (results_path t))")
      case None
      then show ?thesis using a \<open>jid = Some t\<close> by (simp add: job_submit_results_def Let_def)
    next
      case (Some u)
      have p: "P (HttpPost u)" using assms(2) \<open>jid = Some t\<close> Some by simp
      have b: "extends P ?w (snd (snd (http_post (Some u) (auth_token (config ctx)) results_json ?w)))"
        by (rule extends_http_post) (simp add: p)
      have c: "extends P w (snd (snd (http_post (Some u) (auth_token (config ctx)) results_json ?w)))"
        by (rule extends_trans [OF a b])
      show ?thesis
        using a c Some \<open>jid = Some t\<close>
        by (auto simp: job_submit_results_def Let_def split: prod.splits option.splits)
    qed
  qed
qed

lemma job_loop_extends:
  "set js' \<subseteq> set js
     \<Longrightarrow> extends (job_event (controller_url (config ctx)) js) w (job_loop ctx js' w)"
proof (induction js' arbitrary: w)
  case Nil
  show ?case by (simp add: extends_refl)
next
  case (Cons j rest)
  let ?P = "job_event (controller_url (config ctx)) js"
  have mem: "j \<in> set js" and sub: "set rest \<subseteq> set js" using Cons.prems by simp_all
  obtain exec_result results_json w1 where je: "job_execute ctx j w = (exec_result, results_json, w1)"
    by (cases "job_execute ctx j w") auto
  have e1: "extends ?P w w1"
    using job_execute_extends [of ?P j w ctx] je mem by simp
  define w2 where "w2 = (if exec_result = ERR_SUCCESS \<and> results_json \<noteq> None
             then snd (job_submit_results ctx (job_id j) (scan_id j) results_json w1) else w1)"
  have s: "extends ?P w1 (snd (job_submit_results ctx (job_id j) (scan_id j) results_json w1))"
  proof (rule job_submit_results_extends)
    show "?P (JobSubmitResults (job_id j))" using mem by simp
  next
    fix t u
    assume "job_id j = Some t"
      and "utils_build_url (controller_url (config ctx)) (Some (results_path t)) = Some u"
    then have "(case job_id j of None \<Rightarrow> None
                | Some jid \<Rightarrow> utils_build_url (controller_url (config ctx)) (Some (results_path jid)))
               = Some u" by simp
    then show "?P (HttpPost u)" using mem by (auto simp: image_iff intro!: bexI [of _ j])
  qed
  have e2: "extends ?P w1 w2" using s by (simp add: w2_def extends_refl)
  have e3: "extends ?P w2 (job_loop ctx rest w2)" by (rule Cons.IH [OF sub])
  have "job_loop ctx (j # rest) w = job_loop ctx rest w2"
    using je by (simp add: w2_def)
  then show ?case
    using extends_trans [OF extends_trans [OF e1 e2] e3] by simp
qed

lemma job_loop_single:
  assumes "job_id j = Some jid" and "scan_id j = Some sid"
    and "utils_build_url (controller_url (config ctx)) (Some (results_path jid)) = Some u"
    and "net w (net_calls w) \<noteq> CurlInitFailed"
  shows "new_events w (job_loop ctx [j] w)
         = [JobExecute (Some jid), JobSubmitResults (Some jid), HttpPost u]"
  using assms
  by (auto simp: new_events_def job_execute_def job_submit_results_def http_post_def
      curl_transfer_def emit_def time_now_def Let_def split: http_outcome.splits)

lemma example_results_url:
  "utils_build_url (controller_url (config example_ctx)) (Some (results_path ''J1''))
   = Some ''https://c.test/api/v1/agents/jobs/J1/results''"
  by (simp add: example_ctx_def example_config_def utils_build_url_def results_path_def)

lemma example_job_trace:
  "new_events accepting_world (job_loop example_ctx [example_job] accepting_world)
   = [JobExecute (Some ''J1''), JobSubmitResults (Some ''J1''),
      HttpPost ''https://c.test/api/v1/agents/jobs/J1/results'']"
  by (rule job_loop_single [OF _ _ example_results_url])
     (simp_all add: example_job_def accepting_world_def example_world_def)

text \<open>
  The loop over the polled jobs, taken alone and given a list that holds the job \<open>J1\<close>:
  it executes the job and posts its results, and no request to
  \<^verbatim>\<open>/api/v1/agents/jobs/J1/complete\<close> follows. No run of \<open>agent_run\<close> gives the loop such
  a list.
\<close>

lemma job_loop_example_no_finalize:
  "new_events accepting_world (job_loop example_ctx [example_job] accepting_world)
     = [JobExecute (Some ''J1''), JobSubmitResults (Some ''J1''),
        HttpPost ''https://c.test/api/v1/agents/jobs/J1/results'']
   \<and> \<not> finalize_follows_submit (controller_url (config example_ctx)) ''J1''
         (trace (job_loop example_ctx [example_job] accepting_world))"
proof -
  have t: "trace accepting_world = []" by (simp add: accepting_world_def example_world_def)
  have e: "trace (job_loop example_ctx [example_job] accepting_world)
           = new_events accepting_world (job_loop example_ctx [example_job] accepting_world)"
    by (simp add: new_events_def t)
  have c: "utils_build_url (controller_url (config example_ctx)) (Some (complete_path ''J1''))
           = Some ''https://c.test/api/v1/agents/jobs/J1/complete''"
    by (simp add: example_ctx_def example_config_def utils_build_url_def complete_path_def)
  show ?thesis
    unfolding e example_job_trace
    by (simp add: finalize_follows_submit_def example_results_url c)
qed

text \<open>
  For the jobs of a list the loop adds to the trace only the calls of \<open>job_execute\<close> and
  \<open>job_submit_results\<close> and POST requests to the results path
  \<^verbatim>\<open>/api/v1/agents/jobs/{id}/results\<close> of these jobs. For one job with an id and a scan
  id, a controller URL and a transfer that is performed, the trace is exactly: execute,
  submit, one POST of the results.
\<close>

lemma job_loop_posts_results_only:
  "list_all (job_event (controller_url (config ctx)) js) (new_events w (job_loop ctx js w))
   \<and> (job_id j = Some jid \<and> scan_id j = Some sid
       \<and> utils_build_url (controller_url (config ctx)) (Some (results_path jid)) = Some u
       \<and> net w (net_calls w) \<noteq> CurlInitFailed
       \<longrightarrow> new_events w (job_loop ctx [j] w)
            = [JobExecute (Some jid), JobSubmitResults (Some jid), HttpPost u])"
proof -
  have "extends (job_event (controller_url (config ctx)) js) w (job_loop ctx js w)"
    by (rule job_loop_extends) simp
  then have "list_all (job_event (controller_url (config ctx)) js) (new_events w (job_loop ctx js w))"
    by (simp add: extends_def)
  then show ?thesis using job_loop_single [of j jid sid ctx u w] by simp
qed

lemma job_loop_posts_results_only_example:
  "list_all (job_event (controller_url (config example_ctx)) [example_job])
      (new_events accepting_world (job_loop example_ctx [example_job] accepting_world))
   \<and> new_events accepting_world (job_loop example_ctx [example_job] accepting_world)
       = [JobExecute (Some ''J1''), JobSubmitResults (Some ''J1''),
          HttpPost ''https://c.test/api/v1/agents/jobs/J1/results'']"
proof -
  have a: "job_id example_job = Some ''J1''" "scan_id example_job = Some ''S1''"
    by (simp_all add: example_job_def)
  have n: "net accepting_world (net_calls accepting_world) \<noteq> CurlInitFailed"
    by (simp add: accepting_world_def example_world_def)
  show ?thesis
    using job_loop_posts_results_only [of example_ctx "[example_job]" accepting_world
        example_job "''J1''" "''S1''" "''https://c.test/api/v1/agents/jobs/J1/results''"]
      a n example_results_url
    by simp
qed



section \<open>Properties of the scan results and of the system information\<close>

text \<open>
  C8. Every result that \<open>create_scan_result\<close> builds carries one of the labels \<open>Log\<close>,
  \<open>Low\<close>, \<open>Medium\<close>, \<open>High\<close>, \<open>Critical\<close>, chosen by the severity alone: \<open>High\<close> from 7.0,
  \<open>Medium\<close> from 4.0 and below 7.0, \<open>Low\<close> otherwise (also for NaN). The results of the
  basic checks are built by it, so they carry such a label too.
\<close>

theorem create_scan_result_threat:
  "(\<exists>r. create_scan_result True oid name sev h p descr = Some r
        \<and> well_labelled r
        \<and> threat r = Some (if float_ge sev 7 then ''High''
                           else if float_ge sev 4 then ''Medium'' else ''Low''))
   \<and> (\<exists>r. create_scan_result True oid name (Finite s) h p descr = Some r
        \<and> threat r = Some (if 7 \<le> s then ''High'' else if 4 \<le> s \<and> s < 7 then ''Medium'' else ''Low''))
   \<and> create_scan_result False oid name sev h p descr = None
   \<and> list_all well_labelled (snd (nasl_executor_run_basic_checks ssh http https calloc_ok target))"
proof (intro conjI)
  show "\<exists>r. create_scan_result True oid name sev h p descr = Some r
        \<and> well_labelled r
        \<and> threat r = Some (if float_ge sev 7 then ''High''
                           else if float_ge sev 4 then ''Medium'' else ''Low'')"
    by (simp add: create_scan_result_def well_labelled_def threat_labels_def)
next
  show "\<exists>r. create_scan_result True oid name (Finite s) h p descr = Some r
        \<and> threat r = Some (if 7 \<le> s then ''High'' else if 4 \<le> s \<and> s < 7 then ''Medium'' else ''Low'')"
    by (simp add: create_scan_result_def)
next
  show "create_scan_result False oid name sev h p descr = None"
    by (simp add: create_scan_result_def)
next
  have b: "\<And>ok oid name p descr. list_all well_labelled (basic_check ok calloc_ok oid name target p descr)"
    by (simp add: basic_check_def create_scan_result_def well_labelled_def threat_labels_def)
  show "list_all well_labelled (snd (nasl_executor_run_basic_checks ssh http https calloc_ok target))"
    by (simp add: nasl_executor_run_basic_checks_def b)
qed

lemma collect_ifaddrs_props:
  "length acc \<le> 16 \<Longrightarrow> ''127.0.0.1'' \<notin> set acc
     \<Longrightarrow> length (collect_ifaddrs ifs acc) \<le> 16 \<and> ''127.0.0.1'' \<notin> set (collect_ifaddrs ifs acc)"
proof (induction ifs arbitrary: acc)
  case Nil
  then show ?case by simp
next
  case (Cons ifa rest)
  show ?case
  proof (cases "length acc < 16")
    case False
    then show ?thesis using Cons.prems by simp
  next
    case True
    then have l: "length (acc @ [x]) \<le> 16" for x by simp
    show ?thesis
    proof (cases ifa)
      case None
      then show ?thesis using True Cons.IH [OF Cons.prems] by simp
    next
      case (Some fa)
      obtain family ip where fa: "fa = (family, ip)" by (cases fa)
      show ?thesis
      proof (cases "family = AF_INET \<and> ip \<noteq> ''127.0.0.1''")
        case True
        have "''127.0.0.1'' \<notin> set (acc @ [ip])" using True Cons.prems(2) by auto
        then show ?thesis
          using True \<open>length acc < 16\<close> Some fa Cons.IH [OF l [of ip]] by simp
      next
        case False
        then show ?thesis
          using \<open>length acc < 16\<close> Some fa Cons.IH [OF Cons.prems] by auto
      qed
    qed
  qed
qed

lemma collect_unicast_length: "length acc \<le> 16 \<Longrightarrow> length (collect_unicast us acc) \<le> 16"
proof (induction us arbitrary: acc)
  case Nil
  then show ?case by simp
next
  case (Cons u rest)
  obtain family ip where u: "u = (family, ip)" by (cases u)
  show ?case
  proof (cases "length acc < 16")
    case False
    then show ?thesis using Cons.prems u by simp
  next
    case True
    then have l: "length (acc @ [ip]) \<le> 16" by simp
    show ?thesis
      using True u Cons.IH [OF l] Cons.IH [OF Cons.prems] by simp
  qed
qed

lemma collect_adapters_length: "length acc \<le> 16 \<Longrightarrow> length (collect_adapters as acc) \<le> 16"
proof (induction as arbitrary: acc)
  case Nil
  then show ?case by simp
next
  case (Cons a rest)
  show ?case
    using Cons.prems Cons.IH [OF collect_unicast_length [OF Cons.prems, of a]] by simp
qed

text \<open>
  With \<^verbatim>\<open>getifaddrs\<close> the list has between 1 and 16 entries and holds 127.0.0.1 only as
  its single entry; with \<^verbatim>\<open>GetAdaptersAddresses\<close> the bounds hold as well.
\<close>

lemma system_info_ifaddrs:
  "agent_get_system_info True (Ifaddrs q) = (ERR_SUCCESS, ips)
     \<Longrightarrow> 1 \<le> length ips \<and> length ips \<le> 16
         \<and> (''127.0.0.1'' \<in> set ips \<longrightarrow> ips = [''127.0.0.1''])"
proof (cases q)
  case None
  assume "agent_get_system_info True (Ifaddrs q) = (ERR_SUCCESS, ips)"
  then show ?thesis using None by (auto simp: agent_get_system_info_def)
next
  case (Some ifaddr)
  assume a: "agent_get_system_info True (Ifaddrs q) = (ERR_SUCCESS, ips)"
  have p: "length (collect_ifaddrs ifaddr []) \<le> 16
           \<and> ''127.0.0.1'' \<notin> set (collect_ifaddrs ifaddr [])"
    by (rule collect_ifaddrs_props) simp_all
  show ?thesis
  proof (cases "collect_ifaddrs ifaddr [] = []")
    case True
    then show ?thesis using a Some by (auto simp: agent_get_system_info_def)
  next
    case False
    then have "ips = collect_ifaddrs ifaddr []"
      using a Some by (auto simp: agent_get_system_info_def)
    then show ?thesis using p False by (simp add: Suc_le_eq)
  qed
qed

lemma system_info_adapters:
  "agent_get_system_info True (Adapters q) = (ERR_SUCCESS, ips)
     \<Longrightarrow> 1 \<le> length ips \<and> length ips \<le> 16"
proof (cases q)
  case None
  assume "agent_get_system_info True (Adapters q) = (ERR_SUCCESS, ips)"
  then show ?thesis using None by (auto simp: agent_get_system_info_def)
next
  case (Some adapters)
  assume a: "agent_get_system_info True (Adapters q) = (ERR_SUCCESS, ips)"
  have p: "length (collect_adapters adapters []) \<le> 16"
    by (rule collect_adapters_length) simp
  show ?thesis
  proof (cases "collect_adapters adapters [] = []")
    case True
    then show ?thesis using a Some by (auto simp: agent_get_system_info_def)
  next
    case False
    then have "ips = collect_adapters adapters []"
      using a Some by (auto simp: agent_get_system_info_def)
    then show ?thesis using p False by (simp add: Suc_le_eq)
  qed
qed

text \<open>
  C10. In the build for Windows the loop over the adapters has no test for the
  loopback address: for a host whose adapters report 127.0.0.1 and 192.168.1.5 the
  function succeeds with both addresses in the list.
\<close>

theorem system_info_windows_loopback:
  "agent_get_system_info True
     (Adapters (Some [[(AF_INET, ''127.0.0.1'')], [(AF_INET6, ''fe80::1''), (AF_INET, ''192.168.1.5'')]]))
   = (ERR_SUCCESS, [''127.0.0.1'', ''192.168.1.5''])"
  by (simp add: agent_get_system_info_def)

end
